theory Spec2Isabelle
  imports Complex_Main "HOL-Library.List_Lexorder" "HOL-Library.Char_ord"
begin

section \<open>Python values\<close>

text \<open>
  A Python string is modelled by the list of its code points, each below 256, so the
  n with tilde of the message for a missing design is code point 0xF1. \<open>str.upper\<close> is
  modelled on the ASCII range, where the model is exact, and the regular expression
  class \<open>\w\<close> on all these code points.
  SQLite compares text byte by byte; on these strings that is the lexicographic order of
  the code points, which is the order on \<^typ>\<open>string\<close> used below.

  An exception is a value of \<open>error\<close>. \<open>ValueError\<close> carries the offending value (the
  formatted text of the source prints a set, whose order Python does not fix) or, when
  the interpreter raises it, the head of its message;
  \<open>IntegrityError\<close> carries the name of the violated constraint; \<open>OSError\<close> carries the
  text of a fault of the file system or of a subprocess.
\<close>

datatype error = ValueError string | IntegrityError string | OSError string

definition dict_get :: "(string \<rightharpoonup> 'v) \<Rightarrow> string \<Rightarrow> 'v \<Rightarrow> 'v" where
  "dict_get d k dflt = (case d k of None \<Rightarrow> dflt | Some v \<Rightarrow> v)"

text \<open>
  \<open>str.upper\<close>, exact for the code points below 128; of the others Python maps some to
  capitals, one to two letters and two out of the range of the model.
\<close>

definition upper_char :: "char \<Rightarrow> char" where
  "upper_char c =
     (if CHR ''a'' \<le> c \<and> c \<le> CHR ''z'' then char_of (of_char c - (32::nat)) else c)"

definition upper :: "string \<Rightarrow> string" where
  "upper s = map upper_char s"

text \<open>
  \<open>chr(ord(c) + 1)\<close>, exact for the code points below 255; the code's result for code
  point 255 is code point 256, which the strings of the model do not have.
\<close>

definition next_char :: "char \<Rightarrow> char" where
  "next_char c = char_of (of_char c + (1::nat))"

type_synonym path = "string list"

text \<open>A \<open>pathlib.Path\<close> is the list of its components; \<open>str\<close> joins them (POSIX).\<close>

fun str_path :: "path \<Rightarrow> string" where
  "str_path [] = ''.''"
| "str_path [x] = x"
| "str_path (x # y # ys) = x @ ''/'' @ str_path (y # ys)"


section \<open>Validation engine (core/validation\_engine.py)\<close>

datatype Severity = ERROR | WARNING

text \<open>The enum constructor \<open>Severity(value)\<close>: it raises \<open>ValueError\<close> on any other value.\<close>

definition Severity_of :: "string \<Rightarrow> error + Severity" where
  "Severity_of v =
     (if v = ''error'' then Inr ERROR
      else if v = ''warning'' then Inr WARNING
      else Inl (ValueError v))"

record ValidationMessage =
  rule_id :: string
  severity :: Severity
  message :: string

record ValidationResult =
  is_valid :: bool
  messages :: "ValidationMessage list"

definition errors :: "ValidationResult \<Rightarrow> ValidationMessage list" where
  "errors r = filter (\<lambda>m. severity m = ERROR) (messages r)"

definition warnings :: "ValidationResult \<Rightarrow> ValidationMessage list" where
  "warnings r = filter (\<lambda>m. severity m = WARNING) (messages r)"

text \<open>
  A rule is a dict from the catalog. The expression is evaluated by Python's \<open>eval\<close>,
  which is not code of this program: it is the parameter \<open>ev\<close>, which returns the text of
  the exception it raised (\<open>Inl\<close>) or the truth value of the result (\<open>Inr\<close>).
\<close>

type_synonym rule = "string \<rightharpoonup> string"

type_synonym 'p evaluator = "string \<Rightarrow> 'p \<Rightarrow> string + bool"

text \<open>The \<open>for\<close> loop of \<open>validate\<close>, with the list \<open>messages\<close> it appends to.\<close>

fun validate_loop ::
  "'p evaluator \<Rightarrow> 'p \<Rightarrow> rule list \<Rightarrow> ValidationMessage list \<Rightarrow> error + ValidationMessage list"
where
  "validate_loop ev parameters [] msgs = Inr msgs"
| "validate_loop ev parameters (rule # rules) msgs =
     (let rid = dict_get rule ''rule_id'' ''UNKNOWN'';
          expression = dict_get rule ''expression'' ''True''
      in case Severity_of (dict_get rule ''severity'' ''error'') of
           Inl e \<Rightarrow> Inl e
         | Inr sev \<Rightarrow>
             (let msg = dict_get rule ''message'' ''Validation failed.''
              in case ev expression parameters of
                   Inl exc \<Rightarrow>
                     validate_loop ev parameters rules
                       (msgs @
                        [\<lparr>rule_id = rid, severity = ERROR,
                          message = ''[Error evaluando regla: '' @ exc @ ''] '' @ msg\<rparr>])
                 | Inr passed \<Rightarrow>
                     if \<not> passed
                     then validate_loop ev parameters rules
                            (msgs @ [\<lparr>rule_id = rid, severity = sev, message = msg\<rparr>])
                     else validate_loop ev parameters rules msgs))"

definition validate :: "'p evaluator \<Rightarrow> 'p \<Rightarrow> rule list \<Rightarrow> error + ValidationResult" where
  "validate ev parameters rules =
     (case validate_loop ev parameters rules [] of
        Inl e \<Rightarrow> Inl e
      | Inr msgs \<Rightarrow>
          (let has_errors = list_ex (\<lambda>m. severity m = ERROR) msgs
           in Inr \<lparr>is_valid = \<not> has_errors, messages = msgs\<rparr>))"


section \<open>Persisted records (data/models.py)\<close>

record PieceType =
  pt_id :: nat
  pt_code :: string
  pt_display_name :: string
  pt_discipline :: string
  pt_category :: string
  pt_description :: "string option"
  pt_catalog_version :: string
  pt_is_active :: int
  pt_created_at :: string
  pt_updated_at :: string

record Design =
  d_id :: nat
  d_piece_type_id :: nat
  d_name :: string
  d_description :: "string option"
  d_drawing_number :: "string option"
  d_created_at :: string
  d_updated_at :: string

record Revision =
  rev_id :: nat
  design_id :: nat
  revision_code :: string
  parameters_json :: string
  description :: "string option"
  generated_at :: string
  generated_by :: string
  fcstd_path :: "string option"
  step_path :: "string option"
  dxf_path :: "string option"
  pdf_path :: "string option"
  bom_xlsx_path :: "string option"
  bom_pdf_path :: "string option"
  eco_number :: "string option"
  eco_reason :: "string option"
  eco_status :: string
  validation_passed :: int
  validation_warnings_json :: "string option"


section \<open>The engine boundary and the orchestrator's messages\<close>

record GenerationResult =
  gr_success :: bool
  gr_fcstd_path :: "path option"
  gr_step_path :: "path option"
  gr_error_message :: "string option"
  gr_warnings :: "string list"
  gr_elapsed_seconds :: real

record 'p engine_call =
  ec_piece_code :: string
  ec_parameters :: 'p
  ec_output_dir :: path
  ec_revision_code :: string

record 'p GenerationRequest =
  req_design_id :: nat
  req_parameters :: 'p
  req_description :: string

record GenerationResponse =
  resp_success :: bool
  resp_revision_id :: "nat option"
  resp_revision_code :: "string option"
  resp_output_dir :: "path option"
  resp_errors :: "string list"
  resp_warnings :: "string list"
  resp_elapsed_seconds :: real


section \<open>The world: the database tables and what the orchestrator did outside them\<close>

text \<open>
  The parameter mapping of a request is only passed on (to \<open>eval\<close>, \<open>json.dumps\<close> and the
  engine), so its type is the type variable \<open>'p\<close>.
  Each table is the list of its rows in insertion order. \<open>engine_calls\<close> logs every call
  of \<open>engine.generate\<close> and \<open>made_dirs\<close> every \<open>mkdir\<close>.
\<close>

record 'p world =
  piece_types :: "PieceType list"
  designs :: "Design list"
  revisions :: "Revision list"
  engine_calls :: "'p engine_call list"
  made_dirs :: "path list"

text \<open>
  What one invocation reads from outside the program: the clock (\<open>_utcnow_str\<close>), the
  settings, the catalog file, \<open>eval\<close>, \<open>json.dumps\<close>, the file system and the CAD engine.
  \<open>mkdir_fault\<close> is the exception that \<open>mkdir\<close> raises for a directory, if any, and
  \<open>engine_fault\<close> the exception that \<open>engine.generate\<close> raises for a call instead of
  returning a result, if any. Faults of the database connection are not modelled.
\<close>

record 'p env =
  now :: string
  outputs_dir :: path
  catalog_rules :: "string \<Rightarrow> rule list"
  evaluator :: "'p evaluator"
  json_dumps :: "'p \<Rightarrow> string"
  json_dumps_list :: "string list \<Rightarrow> string"
  engine :: "'p engine_call \<Rightarrow> GenerationResult"
  mkdir_fault :: "path \<Rightarrow> error option"
  engine_fault :: "'p engine_call \<Rightarrow> error option"


section \<open>Revision code allocator (data/repositories.py)\<close>

text \<open>The \<open>while carry and idx >= 0\<close> loop; the second component is \<open>carry\<close> at exit.\<close>

function inc_loop :: "string \<Rightarrow> int \<Rightarrow> string \<times> bool" where
  "inc_loop chars idx =
     (if idx \<ge> 0 then
        (if chars ! nat idx = CHR ''Z''
         then inc_loop (chars[nat idx := CHR ''A'']) (idx - 1)
         else (chars[nat idx := next_char (chars ! nat idx)], False))
      else (chars, True))"
  by pat_completeness auto
termination
  by (relation "measure (\<lambda>(chars, idx). nat (idx + 1))") auto

declare inc_loop.simps [simp del]

definition increment_revision_code :: "string \<Rightarrow> string" where
  "increment_revision_code code =
     (let chars = upper code;
          (chars', carry) = inc_loop chars (int (length chars) - 1)
      in if carry then CHR ''A'' # chars' else chars')"


section \<open>Repositories (data/repositories.py)\<close>

definition get_design :: "'p world \<Rightarrow> nat \<Rightarrow> Design option" where
  "get_design s i = find (\<lambda>d. d_id d = i) (designs s)"

definition get_piece_type :: "'p world \<Rightarrow> nat \<Rightarrow> PieceType option" where
  "get_piece_type s i = find (\<lambda>p. pt_id p = i) (piece_types s)"

definition get_by_id :: "'p world \<Rightarrow> nat \<Rightarrow> Revision option" where
  "get_by_id s revision_id = find (\<lambda>r. rev_id r = revision_id) (revisions s)"

text \<open>
  \<open>ORDER BY generated_at ASC\<close>. SQL leaves the order of rows with equal timestamps open;
  the model keeps them in row order (the sort is stable).
\<close>

definition get_by_design :: "'p world \<Rightarrow> nat \<Rightarrow> Revision list" where
  "get_by_design s d = sort_key generated_at (filter (\<lambda>r. design_id r = d) (revisions s))"

definition get_next_revision_code :: "'p world \<Rightarrow> nat \<Rightarrow> string" where
  "get_next_revision_code s d =
     (let revs = get_by_design s d
      in if revs = [] then ''A'' else increment_revision_code (revision_code (last revs)))"

text \<open>
  \<open>session.add\<close> and \<open>session.flush\<close> of a new revision: the INSERT checks the foreign key
  (\<open>PRAGMA foreign_keys=ON\<close>) and the unique constraint \<open>uq_revisions_design_rev\<close>, and
  assigns the next row id. A failed INSERT leaves the table as it was.
\<close>

definition next_rev_id :: "'p world \<Rightarrow> nat" where
  "next_rev_id s = Suc (fold max (map rev_id (revisions s)) 0)"

definition flush_revision :: "'p world \<Rightarrow> Revision \<Rightarrow> (error + Revision) \<times> 'p world" where
  "flush_revision s rv =
     (if get_design s (design_id rv) = None
      then (Inl (IntegrityError ''fk_revisions_design_id''), s)
      else if list_ex (\<lambda>r. design_id r = design_id rv \<and> revision_code r = revision_code rv)
                (revisions s)
      then (Inl (IntegrityError ''uq_revisions_design_rev''), s)
      else (let rv' = rv\<lparr>rev_id := next_rev_id s\<rparr>
            in (Inr rv', s\<lparr>revisions := revisions s @ [rv']\<rparr>)))"

definition create ::
  "'p env \<Rightarrow> 'p world \<Rightarrow> nat \<Rightarrow> 'p \<Rightarrow> string \<Rightarrow> string \<Rightarrow> (error + Revision) \<times> 'p world"
where
  "create e s d parameters descr gen_by =
     (let code = get_next_revision_code s d;
          rv = \<lparr>rev_id = 0, design_id = d, revision_code = code,
                 parameters_json = json_dumps e parameters,
                 description = Some descr, generated_at = now e, generated_by = gen_by,
                 fcstd_path = None, step_path = None, dxf_path = None, pdf_path = None,
                 bom_xlsx_path = None, bom_pdf_path = None,
                 eco_number = None, eco_reason = None, eco_status = ''draft'',
                 validation_passed = 0, validation_warnings_json = None\<rparr>
      in flush_revision s rv)"

text \<open>Writing a changed row back (\<open>UPDATE revisions ... WHERE id = ?\<close> at commit).\<close>

definition put_revision :: "'p world \<Rightarrow> Revision \<Rightarrow> 'p world" where
  "put_revision s rv =
     s\<lparr>revisions := map (\<lambda>r. if rev_id r = rev_id rv then rv else r) (revisions s)\<rparr>"

definition update_eco_status ::
  "'p world \<Rightarrow> nat \<Rightarrow> string \<Rightarrow> string option \<Rightarrow> string option
     \<Rightarrow> (error + Revision option) \<times> 'p world"
where
  "update_eco_status s revision_id status eco_num eco_rsn =
     (if status \<notin> set [''draft'', ''issued'', ''obsolete'']
      then (Inl (ValueError status), s)
      else case get_by_id s revision_id of
             None \<Rightarrow> (Inr None, s)
           | Some rv \<Rightarrow>
               (let rv1 = rv\<lparr>eco_status := status\<rparr>;
                    rv2 = (case eco_num of None \<Rightarrow> rv1
                            | Some n \<Rightarrow> rv1\<lparr>eco_number := Some n\<rparr>);
                    rv3 = (case eco_rsn of None \<Rightarrow> rv2
                            | Some n \<Rightarrow> rv2\<lparr>eco_reason := Some n\<rparr>)
                in (Inr (Some rv3), put_revision s rv3)))"

text \<open>
  \<open>paths\<close> is a dict whose values may be \<open>None\<close> (the orchestrator passes such values);
  \<open>paths.get(k)\<close> is then \<open>None\<close> as for a missing key.
\<close>

definition paths_get :: "(string \<rightharpoonup> string option) \<Rightarrow> string \<Rightarrow> string option" where
  "paths_get paths k = (case paths k of None \<Rightarrow> None | Some v \<Rightarrow> v)"

definition update_output_paths ::
  "'p world \<Rightarrow> nat \<Rightarrow> (string \<rightharpoonup> string option) \<Rightarrow> Revision option \<times> 'p world"
where
  "update_output_paths s revision_id paths =
     (case get_by_id s revision_id of
        None \<Rightarrow> (None, s)
      | Some rv \<Rightarrow>
          (let rv' = rv\<lparr>fcstd_path := paths_get paths ''fcstd'',
                          step_path := paths_get paths ''step'',
                          dxf_path := paths_get paths ''dxf'',
                          pdf_path := paths_get paths ''pdf'',
                          bom_xlsx_path := paths_get paths ''bom_xlsx'',
                          bom_pdf_path := paths_get paths ''bom_pdf''\<rparr>
           in (Some rv', put_revision s rv')))"


section \<open>Generation orchestrator (core/piece\_controller.py)\<close>

text \<open>
  The class \<open>\w\<close> of a Python 3 pattern on text: the underscore and every alphanumeric
  character of Unicode, here for the code points below 256.
\<close>

definition word_char :: "char \<Rightarrow> bool" where
  "word_char c =
     ((CHR ''a'' \<le> c \<and> c \<le> CHR ''z'') \<or> (CHR ''A'' \<le> c \<and> c \<le> CHR ''Z'')
      \<or> (CHR ''0'' \<le> c \<and> c \<le> CHR ''9'') \<or> c = CHR ''_''
      \<or> c = CHR 0xAA \<or> (CHR 0xB2 \<le> c \<and> c \<le> CHR 0xB3) \<or> c = CHR 0xB5
      \<or> (CHR 0xB9 \<le> c \<and> c \<le> CHR 0xBA) \<or> (CHR 0xBC \<le> c \<and> c \<le> CHR 0xBE)
      \<or> (CHR 0xC0 \<le> c \<and> c \<le> CHR 0xD6) \<or> (CHR 0xD8 \<le> c \<and> c \<le> CHR 0xF6)
      \<or> CHR 0xF8 \<le> c)"

text \<open>\<open>re.sub(r"[^\w\-]", "_", design_name)\<close>\<close>

definition safe_name_of :: "string \<Rightarrow> string" where
  "safe_name_of design_name =
     map (\<lambda>c. if word_char c \<or> c = CHR ''-'' then c else CHR ''_'') design_name"

definition failure :: "string list \<Rightarrow> string list \<Rightarrow> GenerationResponse" where
  "failure errs warns =
     \<lparr>resp_success = False, resp_revision_id = None, resp_revision_code = None,
      resp_output_dir = None, resp_errors = errs, resp_warnings = warns,
      resp_elapsed_seconds = 0\<rparr>"

text \<open>
  Steps 4 to 6 of \<open>generate\<close>, after the revision \<open>rv\<close> was recorded and committed: make
  the output directory, call the engine, store the output paths when it succeeded,
  answer. An exception of \<open>mkdir\<close> or of the engine leaves \<open>generate\<close> at that point, with
  the revision stored.
\<close>

definition run_engine ::
  "'p env \<Rightarrow> 'p GenerationRequest \<Rightarrow> string \<Rightarrow> string \<Rightarrow> string list \<Rightarrow> Revision
     \<Rightarrow> 'p world \<Rightarrow> (error + GenerationResponse) \<times> 'p world"
where
  "run_engine e request piece_code design_name warning_msgs rv s =
     (let revision_id = rev_id rv;
          code = revision_code rv;
          safe_name = safe_name_of design_name;
          output_dir = outputs_dir e @ [piece_code, safe_name, code]
      in case mkdir_fault e output_dir of
           Some err \<Rightarrow> (Inl err, s)
         | None \<Rightarrow>
             (let s1 = s\<lparr>made_dirs := made_dirs s @ [output_dir]\<rparr>;
                  call = \<lparr>ec_piece_code = piece_code, ec_parameters = req_parameters request,
                          ec_output_dir = output_dir, ec_revision_code = code\<rparr>;
                  s2 = s1\<lparr>engine_calls := engine_calls s1 @ [call]\<rparr>
              in case engine_fault e call of
                   Some err \<Rightarrow> (Inl err, s2)
                 | None \<Rightarrow>
                     (let cad_result = engine e call;
                          s3 = (if gr_success cad_result
                                then snd (update_output_paths s2 revision_id
                                       [''fcstd'' \<mapsto>
                                          map_option str_path (gr_fcstd_path cad_result),
                                        ''step'' \<mapsto>
                                          map_option str_path (gr_step_path cad_result)])
                                else s2);
                          all_warnings = warning_msgs @ gr_warnings cad_result
                      in if gr_success cad_result
                         then (Inr \<lparr>resp_success = True, resp_revision_id = Some revision_id,
                                     resp_revision_code = Some code,
                                     resp_output_dir = Some output_dir,
                                     resp_errors = [], resp_warnings = all_warnings,
                                     resp_elapsed_seconds = gr_elapsed_seconds cad_result\<rparr>,
                               s3)
                         else (Inr \<lparr>resp_success = False, resp_revision_id = Some revision_id,
                                     resp_revision_code = Some code,
                                     resp_output_dir = Some output_dir,
                                     resp_errors =
                                       [case gr_error_message cad_result of
                                          None \<Rightarrow> ''Error desconocido en el motor CAD.''
                                        | Some m \<Rightarrow>
                                            if m = [] then ''Error desconocido en el motor CAD.''
                                            else m],
                                     resp_warnings = all_warnings,
                                     resp_elapsed_seconds = gr_elapsed_seconds cad_result\<rparr>,
                               s3))))"

text \<open>
  Step 3 of \<open>generate\<close>: create the revision, set the validation snapshot, commit. An
  exception rolls the session back.
\<close>

definition record_revision ::
  "'p env \<Rightarrow> 'p GenerationRequest \<Rightarrow> string list \<Rightarrow> 'p world \<Rightarrow> (error + Revision) \<times> 'p world"
where
  "record_revision e request warning_msgs s =
     (case create e s (req_design_id request) (req_parameters request)
             (req_description request) ''Fede'' of
        (Inl err, s') \<Rightarrow> (Inl err, s)
      | (Inr rv, s') \<Rightarrow>
          (let rv' = rv\<lparr>validation_passed := 1,
                          validation_warnings_json :=
                            (if warning_msgs \<noteq> [] then Some (json_dumps_list e warning_msgs)
                             else None)\<rparr>
           in (Inr rv', put_revision s' rv')))"

definition generate ::
  "'p env \<Rightarrow> 'p GenerationRequest \<Rightarrow> 'p world \<Rightarrow> (error + GenerationResponse) \<times> 'p world"
where
  "generate e request s =
     (case get_design s (req_design_id request) of
        None \<Rightarrow> (Inr (failure [''Dise'' @ [CHR 0xF1] @ ''o no encontrado.''] []), s)
      | Some design \<Rightarrow>
          (case get_piece_type s (d_piece_type_id design) of
             None \<Rightarrow> (Inr (failure [''Tipo de pieza no encontrado.''] []), s)
           | Some piece_type \<Rightarrow>
               (let piece_code = pt_code piece_type;
                    design_name = d_name design;
                    rules = catalog_rules e piece_code
                in case validate (evaluator e) (req_parameters request) rules of
                     Inl err \<Rightarrow> (Inl err, s)
                   | Inr validation \<Rightarrow>
                       if \<not> is_valid validation
                       then (Inr (failure (map message (errors validation))
                                    (map message (warnings validation))), s)
                       else
                         (let warning_msgs = map message (warnings validation)
                          in case record_revision e request warning_msgs s of
                               (Inl err, s') \<Rightarrow> (Inl err, s')
                             | (Inr rv, s') \<Rightarrow>
                                 run_engine e request piece_code design_name
                                   warning_msgs rv s'))))"

text \<open>
  A caller invoking \<open>generate\<close> repeatedly, each time with what the outside world is at
  that moment; an invocation that raised leaves the caller free to go on.
\<close>

fun run ::
  "('p env \<times> 'p GenerationRequest) list \<Rightarrow> 'p world
     \<Rightarrow> (error + GenerationResponse) list \<times> 'p world"
where
  "run [] s = ([], s)"
| "run ((e, request) # calls) s =
     (case generate e request s of
        (r, s') \<Rightarrow> (case run calls s' of (rs, s'') \<Rightarrow> (r # rs, s'')))"


section \<open>The sequence A, B, ..., Z, AA, AB, ...\<close>

text \<open>
  The sequence of revision codes as the specification names it: the letters, then the
  two-letter words in dictionary order, and so on. \<open>nth_code n\<close> is its term at index
  \<open>n\<close>, counted from 0.
\<close>

definition letter :: "nat \<Rightarrow> char" where
  "letter k = char_of (65 + k)"

function nth_code :: "nat \<Rightarrow> string" where
  "nth_code n =
     (if n < 26 then [letter n] else nth_code (n div 26 - 1) @ [letter (n mod 26)])"
  by pat_completeness auto
termination
  by (relation "measure id") auto

declare nth_code.simps [simp del]

definition is_upper_letter :: "char \<Rightarrow> bool" where
  "is_upper_letter c = (CHR ''A'' \<le> c \<and> c \<le> CHR ''Z'')"

definition is_letter :: "char \<Rightarrow> bool" where
  "is_letter c = (is_upper_letter c \<or> (CHR ''a'' \<le> c \<and> c \<le> CHR ''z''))"

text \<open>The codes of a design's revisions in creation order (row order).\<close>

definition codes_of :: "'p world \<Rightarrow> nat \<Rightarrow> string list" where
  "codes_of s d = map revision_code (filter (\<lambda>r. design_id r = d) (revisions s))"

text \<open>The position of a code in that sequence, counted from 1.\<close>

definition code_value :: "string \<Rightarrow> nat" where
  "code_value s = foldl (\<lambda>a c. a * 26 + (of_char c - 64)) 0 s"


text \<open>
  An invocation recorded a revision when it answered with a revision id; this is the
  case for every invocation that passed validation and returned, whether the engine then
  succeeded or failed.
\<close>

definition recorded :: "error + GenerationResponse \<Rightarrow> bool" where
  "recorded r = (case r of Inl err \<Rightarrow> False | Inr resp \<Rightarrow> resp_revision_id resp \<noteq> None)"


section \<open>What the specification says a rule records\<close>

definition declared_severity :: "rule \<Rightarrow> string" where
  "declared_severity rule = dict_get rule ''severity'' ''error''"

text \<open>
  The specification's three cases for one rule, in its words: a fault of the evaluator
  records the rule's id, severity error and a message embedding the fault and the declared
  message; a falsy result records the rule's id, declared severity and declared message; a
  truthy result records nothing.
\<close>

definition recorded_for :: "'p evaluator \<Rightarrow> 'p \<Rightarrow> rule \<Rightarrow> ValidationMessage list" where
  "recorded_for ev parameters rule =
     (case ev (dict_get rule ''expression'' ''True'') parameters of
        Inl fault \<Rightarrow>
          [\<lparr>rule_id = dict_get rule ''rule_id'' ''UNKNOWN'', severity = ERROR,
            message = ''[Error evaluando regla: '' @ fault @ ''] ''
                      @ dict_get rule ''message'' ''Validation failed.''\<rparr>]
      | Inr truthy \<Rightarrow>
          if truthy then []
          else [\<lparr>rule_id = dict_get rule ''rule_id'' ''UNKNOWN'',
                 severity = (if declared_severity rule = ''warning'' then WARNING else ERROR),
                 message = dict_get rule ''message'' ''Validation failed.''\<rparr>])"


section \<open>A small catalog, database and engine for the examples\<close>

type_synonym ex_params = "(string \<times> int) list"

definition ex_piece :: PieceType where
  "ex_piece =
     \<lparr>pt_id = 1, pt_code = ''base_plate'', pt_display_name = ''Placa Base Estructural'',
      pt_discipline = ''structural'', pt_category = ''base'', pt_description = None,
      pt_catalog_version = ''1.0'', pt_is_active = 1, pt_created_at = ''0'',
      pt_updated_at = ''0''\<rparr>"

definition ex_design :: Design where
  "ex_design =
     \<lparr>d_id = 1, d_piece_type_id = 1, d_name = ''Placa Test'', d_description = None,
      d_drawing_number = None, d_created_at = ''0'', d_updated_at = ''0''\<rparr>"

definition ex_revision :: "nat \<Rightarrow> string \<Rightarrow> string \<Rightarrow> Revision" where
  "ex_revision i c t =
     \<lparr>rev_id = i, design_id = 1, revision_code = c, parameters_json = ''{}'',
      description = Some [], generated_at = t, generated_by = ''Fede'',
      fcstd_path = Some ''old.FCStd'', step_path = None, dxf_path = Some ''old.dxf'',
      pdf_path = None, bom_xlsx_path = None, bom_pdf_path = None,
      eco_number = None, eco_reason = None, eco_status = ''draft'',
      validation_passed = 1, validation_warnings_json = None\<rparr>"

definition ex_world :: "Revision list \<Rightarrow> ex_params world" where
  "ex_world revs =
     \<lparr>piece_types = [ex_piece], designs = [ex_design], revisions = revs,
      engine_calls = [], made_dirs = []\<rparr>"

text \<open>
  Two rules of the catalog's base plate, and an evaluator that knows their expressions:
  a name missing from the parameters is the fault \<open>NameError\<close>.
\<close>

definition ex_rules :: "rule list" where
  "ex_rules =
     [[''rule_id'' \<mapsto> ''VR-BP-01'', ''expression'' \<mapsto> ''espesor >= 4'',
       ''severity'' \<mapsto> ''error'', ''message'' \<mapsto> ''Espesor minimo 4 mm.''],
      [''rule_id'' \<mapsto> ''VR-BP-02'', ''expression'' \<mapsto> ''largo <= 10 * ancho'',
       ''severity'' \<mapsto> ''warning'', ''message'' \<mapsto> ''Relacion largo/ancho supera 10:1.'']]"

definition ex_eval :: "ex_params evaluator" where
  "ex_eval expression parameters =
     (if expression = ''espesor >= 4''
      then (case map_of parameters ''espesor'' of
              None \<Rightarrow> Inl ''name 'espesor' is not defined''
            | Some v \<Rightarrow> Inr (v \<ge> 4))
      else if expression = ''largo <= 10 * ancho''
      then (case (map_of parameters ''largo'', map_of parameters ''ancho'') of
              (Some l, Some a) \<Rightarrow> Inr (l \<le> 10 * a)
            | _ \<Rightarrow> Inl ''name is not defined'')
      else Inr True)"

definition ex_failed :: GenerationResult where
  "ex_failed =
     \<lparr>gr_success = False, gr_fcstd_path = None, gr_step_path = None,
      gr_error_message = Some ''Fallo simulado del motor CAD.'', gr_warnings = [],
      gr_elapsed_seconds = 0\<rparr>"

definition ex_ok :: GenerationResult where
  "ex_ok =
     \<lparr>gr_success = True, gr_fcstd_path = Some [''out'', ''p.FCStd''],
      gr_step_path = Some [''out'', ''p.step''], gr_error_message = None, gr_warnings = [],
      gr_elapsed_seconds = 0\<rparr>"

definition ex_env :: "string \<Rightarrow> GenerationResult \<Rightarrow> ex_params env" where
  "ex_env t result =
     \<lparr>now = t, outputs_dir = [''outputs''], catalog_rules = (\<lambda>c. ex_rules),
      evaluator = ex_eval, json_dumps = (\<lambda>p. ''{}''), json_dumps_list = concat,
      engine = (\<lambda>c. result), mkdir_fault = (\<lambda>d. None), engine_fault = (\<lambda>c. None)\<rparr>"

definition ex_request :: "ex_params \<Rightarrow> ex_params GenerationRequest" where
  "ex_request p = \<lparr>req_design_id = 1, req_parameters = p, req_description = []\<rparr>"

text \<open>
  A request that passes the two rules, the row that a successful generation at clock \<open>t\<close>
  leaves for it, the call that the engine receives for the code \<open>c\<close>, and the world
  after successful generations that left the rows \<open>revs\<close> with the codes \<open>cs\<close>.
\<close>

definition ex_good :: "ex_params GenerationRequest" where
  "ex_good = ex_request [(''espesor'', 12), (''largo'', 300), (''ancho'', 200)]"

definition ex_stored :: "nat \<Rightarrow> string \<Rightarrow> string \<Rightarrow> Revision" where
  "ex_stored i c t =
     (ex_revision i c t)\<lparr>fcstd_path := Some ''out/p.FCStd'', step_path := Some ''out/p.step'',
                          dxf_path := None\<rparr>"

definition ex_call :: "string \<Rightarrow> ex_params engine_call" where
  "ex_call c =
     \<lparr>ec_piece_code = ''base_plate'',
      ec_parameters = [(''espesor'', 12), (''largo'', 300), (''ancho'', 200)],
      ec_output_dir = [''outputs'', ''base_plate'', ''Placa_Test'', c],
      ec_revision_code = c\<rparr>"

definition ex_after :: "Revision list \<Rightarrow> string list \<Rightarrow> ex_params world" where
  "ex_after revs cs =
     (ex_world revs)\<lparr>engine_calls := map ex_call cs,
                      made_dirs := map (\<lambda>c. [''outputs'', ''base_plate'', ''Placa_Test'', c]) cs\<rparr>"

definition ex_answer :: "nat \<Rightarrow> string \<Rightarrow> GenerationResponse" where
  "ex_answer i c =
     \<lparr>resp_success = True, resp_revision_id = Some i, resp_revision_code = Some c,
      resp_output_dir = Some [''outputs'', ''base_plate'', ''Placa_Test'', c],
      resp_errors = [], resp_warnings = [], resp_elapsed_seconds = 0\<rparr>"


section \<open>The parameters property\<close>

text \<open>
  \<open>Revision.parameters\<close> is a property over the column \<open>parameters_json\<close>: the setter stores
  \<open>json.dumps(value, ensure_ascii=False)\<close>, the getter returns
  \<open>json.loads(self.parameters_json)\<close>. The orchestrator passes the text on unread, and its
  model above keeps it opaque; here the two library calls are modelled from the
  documentation of the \<open>json\<close> module, for the mappings of the specification: string keys,
  and values that are numbers (\<open>int\<close>, \<open>float\<close>), booleans or strings.

  A float is a finite value or one of the three that are no number. The finite ones are
  taken from the rationals, which hold every finite float; the sign of a zero, which \<open>==\<close>
  does not see, is not kept. \<open>NaN\<close> is the one value here that is not \<open>==\<close> to itself, and
  comparison of containers takes two references to one object for equal before it asks
  \<open>==\<close>, so a \<open>NaN\<close> carries the identity of its float object.
\<close>

datatype pyfloat = Finite rat | PosInf | NegInf | NaN nat

datatype pyvalue = PyInt int | PyFloat pyfloat | PyBool bool | PyStr string

text \<open>A dict, as its items in insertion order; the keys of a dict are distinct.\<close>

type_synonym pydict = "(string \<times> pyvalue) list"

text \<open>
  JSON text, at the level of its tokens: an object is the sequence of its members, a value
  is a string, an integer literal, a literal with a fraction or an exponent, or one of
  the constants. A string token stands for the escaped text of its string, and a
  literal with a fraction or an exponent for the float that \<open>float\<close> reads from it:
  \<open>float.__repr__\<close> writes the shortest literal that reads back as the same float.
\<close>

datatype json_value =
  JString string | JInteger int | JReal rat | JNaN | JInfinity | JMinusInfinity | JTrue | JFalse

type_synonym json_object = "(string \<times> json_value) list"

text \<open>
  \<open>sys.get_int_max_str_digits()\<close>, at its default: conversion between \<open>int\<close> and decimal text
  raises \<open>ValueError\<close> for more digits (Python 3.11 and later).
\<close>

definition int_max_str_digits :: nat where
  "int_max_str_digits = 4300"

text \<open>The float object that \<open>json.decoder\<close> keeps for the constant \<open>NaN\<close>.\<close>

definition decoder_NaN :: nat where
  "decoder_NaN = 0"

text \<open>
  \<open>json.dumps\<close> of a value: \<open>True\<close> and \<open>False\<close> become \<open>true\<close> and \<open>false\<close>, an \<open>int\<close> its decimal
  text (\<open>int.__repr__\<close>), a float \<open>NaN\<close>, \<open>Infinity\<close>, \<open>-Infinity\<close> or \<open>float.__repr__\<close>
  (\<open>allow_nan\<close> is true by default), a string its JSON string.
\<close>

fun encode_value :: "pyvalue \<Rightarrow> error + json_value" where
  "encode_value (PyStr s) = Inr (JString s)"
| "encode_value (PyBool b) = Inr (if b then JTrue else JFalse)"
| "encode_value (PyInt i) =
     (if abs i < 10 ^ int_max_str_digits then Inr (JInteger i)
      else Inl (ValueError ''Exceeds the limit (4300 digits) for integer string conversion''))"
| "encode_value (PyFloat (NaN a)) = Inr JNaN"
| "encode_value (PyFloat PosInf) = Inr JInfinity"
| "encode_value (PyFloat NegInf) = Inr JMinusInfinity"
| "encode_value (PyFloat (Finite q)) = Inr (JReal q)"

text \<open>\<open>json.dumps\<close> of a dict with string keys: its items in order.\<close>

fun dumps :: "pydict \<Rightarrow> error + json_object" where
  "dumps [] = Inr []"
| "dumps ((k, v) # items) =
     (case encode_value v of
        Inl err \<Rightarrow> Inl err
      | Inr t \<Rightarrow> (case dumps items of Inl err \<Rightarrow> Inl err | Inr ts \<Rightarrow> Inr ((k, t) # ts)))"

text \<open>
  \<open>json.loads\<close> of a value: an integer literal is read by \<open>int\<close>, a literal with a fraction
  or an exponent by \<open>float\<close>, and the constant \<open>NaN\<close> gives the decoder's own object.
\<close>

fun decode_value :: "json_value \<Rightarrow> error + pyvalue" where
  "decode_value (JString s) = Inr (PyStr s)"
| "decode_value (JInteger i) =
     (if abs i < 10 ^ int_max_str_digits then Inr (PyInt i)
      else Inl (ValueError ''Exceeds the limit (4300 digits) for integer string conversion''))"
| "decode_value (JReal q) = Inr (PyFloat (Finite q))"
| "decode_value JNaN = Inr (PyFloat (NaN decoder_NaN))"
| "decode_value JInfinity = Inr (PyFloat PosInf)"
| "decode_value JMinusInfinity = Inr (PyFloat NegInf)"
| "decode_value JTrue = Inr (PyBool True)"
| "decode_value JFalse = Inr (PyBool False)"

text \<open>\<open>d[k] = v\<close>: a key that is present keeps its place.\<close>

definition dict_set :: "pydict \<Rightarrow> string \<Rightarrow> pyvalue \<Rightarrow> pydict" where
  "dict_set d k v =
     (if k \<in> set (map fst d) then map (\<lambda>(k', v'). if k' = k then (k', v) else (k', v')) d
      else d @ [(k, v)])"

text \<open>\<open>json.loads\<close> of an object: the members are set in order, a repeated name last.\<close>

fun loads_loop :: "json_object \<Rightarrow> pydict \<Rightarrow> error + pydict" where
  "loads_loop [] d = Inr d"
| "loads_loop ((k, t) # members) d =
     (case decode_value t of
        Inl err \<Rightarrow> Inl err
      | Inr v \<Rightarrow> loads_loop members (dict_set d k v))"

definition loads :: "json_object \<Rightarrow> error + pydict" where
  "loads js = loads_loop js []"

text \<open>
  The setter, as the value it assigns to \<open>parameters_json\<close> unless \<open>json.dumps\<close> raises, and
  the getter, from the value of \<open>parameters_json\<close>.
\<close>

definition parameters_setter :: "pydict \<Rightarrow> error + json_object" where
  "parameters_setter v = dumps v"

definition parameters_getter :: "json_object \<Rightarrow> error + pydict" where
  "parameters_getter js = loads js"

text \<open>
  The operator \<open>==\<close>. Numbers, booleans among them as 0 and 1, compare by exact value;
  \<open>NaN\<close> is equal to nothing; a string is equal to strings only.
\<close>

fun float_eq :: "pyfloat \<Rightarrow> pyfloat \<Rightarrow> bool" where
  "float_eq (Finite a) (Finite b) = (a = b)"
| "float_eq PosInf PosInf = True"
| "float_eq NegInf NegInf = True"
| "float_eq x y = False"

fun numeric_value :: "pyvalue \<Rightarrow> pyfloat option" where
  "numeric_value (PyInt i) = Some (Finite (of_int i))"
| "numeric_value (PyBool b) = Some (Finite (if b then 1 else 0))"
| "numeric_value (PyFloat x) = Some x"
| "numeric_value (PyStr s) = None"

definition py_eq :: "pyvalue \<Rightarrow> pyvalue \<Rightarrow> bool" where
  "py_eq v w =
     (case (v, w) of
        (PyStr a, PyStr b) \<Rightarrow> a = b
      | _ \<Rightarrow> (case (numeric_value v, numeric_value w) of
                 (Some x, Some y) \<Rightarrow> float_eq x y
               | _ \<Rightarrow> False))"

text \<open>
  \<open>v is w\<close>, where it can differ from \<open>v == w\<close>: for two references to one \<open>NaN\<close> object.
\<close>

fun same_object :: "pyvalue \<Rightarrow> pyvalue \<Rightarrow> bool" where
  "same_object (PyFloat (NaN a)) (PyFloat (NaN b)) = (a = b)"
| "same_object v w = False"

text \<open>
  \<open>a == b\<close> for dicts: as many items, and every key of \<open>a\<close> is a key of \<open>b\<close> with a value
  that is the same object or equal.
\<close>

definition dict_eq :: "pydict \<Rightarrow> pydict \<Rightarrow> bool" where
  "dict_eq a b =
     (length a = length b
      \<and> list_all (\<lambda>(k, v). case map_of b k of
                             None \<Rightarrow> False
                           | Some w \<Rightarrow> same_object v w \<or> py_eq v w) a)"

text \<open>
  For the statement of the round trip: a value whose decimal text the interpreter
  converts, a \<open>NaN\<close> that is not the decoder's object, and the value read back for a value.
\<close>

fun within_int_limit :: "pyvalue \<Rightarrow> bool" where
  "within_int_limit (PyInt i) = (abs i < 10 ^ int_max_str_digits)"
| "within_int_limit v = True"

fun other_nan :: "pyvalue \<Rightarrow> bool" where
  "other_nan (PyFloat (NaN a)) = (a \<noteq> decoder_NaN)"
| "other_nan v = False"

fun read_back :: "pyvalue \<Rightarrow> pyvalue" where
  "read_back (PyFloat (NaN a)) = PyFloat (NaN decoder_NaN)"
| "read_back v = v"

definition ex_mapping :: pydict where
  "ex_mapping =
     [(''espesor'', PyInt 12), (''largo'', PyFloat (Finite (601 / 2))),
      (''soldado'', PyBool True), (''material'', PyStr ''S275''),
      (''radio_max'', PyFloat PosInf)]"


section \<open>The allocator follows the sequence\<close>

lemma of_char_letter: "k < 26 \<Longrightarrow> of_char (letter k) = 65 + k"
  by (simp add: letter_def)

lemma letter_eq_iff: "j < 26 \<Longrightarrow> k < 26 \<Longrightarrow> (letter j = letter k) = (j = k)"
  by (simp add: letter_def char_of_quasi_inj)

lemma letter_0: "letter 0 = CHR ''A''" by code_simp
lemma letter_25: "letter 25 = CHR ''Z''" by code_simp

lemma letter_Z_iff: "k < 26 \<Longrightarrow> (letter k = CHR ''Z'') = (k = 25)"
  using letter_eq_iff [of k 25] by (simp add: letter_25)

lemma next_char_letter: "k < 25 \<Longrightarrow> next_char (letter k) = letter (Suc k)"
  by (simp add: next_char_def letter_def)

lemma is_upper_letter_iff: "is_upper_letter c = (\<exists>k<26. c = letter k)"
proof
  assume "is_upper_letter c"
  then have a: "65 \<le> (of_char c :: nat)" and b: "(of_char c :: nat) \<le> 90"
    by (simp_all add: is_upper_letter_def less_eq_char_def)
  have "c = letter (of_char c - 65)" using a by (simp add: letter_def)
  moreover have "(of_char c :: nat) - 65 < 26" using b by simp
  ultimately show "\<exists>k<26. c = letter k" by blast
next
  assume "\<exists>k<26. c = letter k"
  then show "is_upper_letter c"
    by (auto simp: is_upper_letter_def less_eq_char_def of_char_letter)
qed

lemma upper_char_letter: "k < 26 \<Longrightarrow> upper_char (letter k) = letter k"
  by (simp add: upper_char_def less_eq_char_def of_char_letter)

lemma upper_char_upper: "is_upper_letter (upper_char c) = is_letter c"
  apply (simp add: upper_char_def is_letter_def is_upper_letter_def less_eq_char_def)
  apply auto
  done


lemma inc_loop_neg: "inc_loop zs (- 1) = (zs, True)"
  by (simp add: inc_loop.simps)

lemma inc_loop_snoc:
  "inc_loop (xs @ c # zs) (int (length xs)) =
     (if c = CHR ''Z'' then inc_loop (xs @ CHR ''A'' # zs) (int (length xs) - 1)
      else (xs @ next_char c # zs, False))"
  by (subst inc_loop.simps) simp

lemma inc_loop_Zs:
  "inc_loop (xs @ replicate k (CHR ''Z'') @ zs) (int (length xs + k) - 1) =
   inc_loop (xs @ replicate k (CHR ''A'') @ zs) (int (length xs) - 1)"
proof (induction k arbitrary: zs)
  case 0
  show ?case by simp
next
  case (Suc k)
  have "xs @ replicate (Suc k) (CHR ''Z'') @ zs = (xs @ replicate k (CHR ''Z'')) @ CHR ''Z'' # zs"
    by (simp add: replicate_append_same)
  then have "inc_loop (xs @ replicate (Suc k) (CHR ''Z'') @ zs) (int (length xs + Suc k) - 1) =
     inc_loop ((xs @ replicate k (CHR ''Z'')) @ CHR ''Z'' # zs) (int (length (xs @ replicate k (CHR ''Z''))))"
    by simp
  also have "\<dots> = inc_loop ((xs @ replicate k (CHR ''Z'')) @ CHR ''A'' # zs) (int (length (xs @ replicate k (CHR ''Z''))) - 1)"
    by (subst inc_loop_snoc) simp
  also have "\<dots> = inc_loop (xs @ replicate k (CHR ''Z'') @ (CHR ''A'' # zs)) (int (length xs + k) - 1)"
    by simp
  also have "\<dots> = inc_loop (xs @ replicate k (CHR ''A'') @ (CHR ''A'' # zs)) (int (length xs) - 1)"
    by (rule Suc.IH)
  also have "\<dots> = inc_loop (xs @ replicate (Suc k) (CHR ''A'') @ zs) (int (length xs) - 1)"
    by (simp add: replicate_app_Cons_same)
  finally show ?case .
qed

lemma inc_loop_carry:
  assumes "c \<noteq> CHR ''Z''"
  shows "inc_loop (xs @ c # replicate k (CHR ''Z'')) (int (length xs + k)) =
         (xs @ next_char c # replicate k (CHR ''A''), False)"
proof -
  have "inc_loop ((xs @ [c]) @ replicate k (CHR ''Z'') @ []) (int (length (xs @ [c]) + k) - 1) =
        inc_loop ((xs @ [c]) @ replicate k (CHR ''A'') @ []) (int (length (xs @ [c])) - 1)"
    by (rule inc_loop_Zs)
  then have "inc_loop (xs @ c # replicate k (CHR ''Z'')) (int (length xs + k)) =
        inc_loop (xs @ c # replicate k (CHR ''A'')) (int (length xs))"
    by simp
  also have "\<dots> = (xs @ next_char c # replicate k (CHR ''A''), False)"
    using assms by (subst inc_loop_snoc) simp
  finally show ?thesis .
qed

lemma inc_loop_all_Z:
  "inc_loop (replicate k (CHR ''Z'')) (int k - 1) = (replicate k (CHR ''A''), True)"
  using inc_loop_Zs [of "[]" k "[]"] by (simp add: inc_loop_neg)

lemma increment_carry:
  assumes "upper code = xs @ c # replicate k (CHR ''Z'')" and "c \<noteq> CHR ''Z''"
  shows "increment_revision_code code = xs @ next_char c # replicate k (CHR ''A'')"
proof -
  have "int (length (upper code)) - 1 = int (length xs + k)"
    by (simp add: assms(1))
  then show ?thesis
    using inc_loop_carry [OF assms(2), of xs k]
    by (simp add: increment_revision_code_def assms(1))
qed

lemma increment_all_Z:
  assumes "upper code = replicate k (CHR ''Z'')"
  shows "increment_revision_code code = replicate (Suc k) (CHR ''A'')"
  using inc_loop_all_Z [of k]
  by (simp add: increment_revision_code_def assms)

lemma split_trailing_Z:
  "(\<exists>k. s = replicate k (CHR ''Z'')) \<or> (\<exists>xs c k. c \<noteq> CHR ''Z'' \<and> s = xs @ c # replicate k (CHR ''Z''))"
proof (induction s rule: rev_induct)
  case Nil
  show ?case by simp
next
  case (snoc x s)
  show ?case
  proof (cases "x = CHR ''Z''")
    case False
    then have "x \<noteq> CHR ''Z'' \<and> s @ [x] = s @ x # replicate 0 (CHR ''Z'')" by simp
    then show ?thesis by blast
  next
    case True
    from snoc.IH show ?thesis
    proof
      assume "\<exists>k. s = replicate k (CHR ''Z'')"
      then obtain k where "s = replicate k (CHR ''Z'')" ..
      then have "s @ [x] = replicate (Suc k) (CHR ''Z'')"
        using True by (simp add: replicate_append_same)
      then show ?thesis by blast
    next
      assume "\<exists>xs c k. c \<noteq> CHR ''Z'' \<and> s = xs @ c # replicate k (CHR ''Z'')"
      then obtain xs c k where "c \<noteq> CHR ''Z''" and "s = xs @ c # replicate k (CHR ''Z'')" by blast
      then have "c \<noteq> CHR ''Z'' \<and> s @ [x] = xs @ c # replicate (Suc k) (CHR ''Z'')"
        using True by (simp add: replicate_append_same)
      then show ?thesis by blast
    qed
  qed
qed


lemma upper_id: "list_all is_upper_letter s \<Longrightarrow> upper s = s"
  by (induction s) (auto simp: upper_def upper_char_def is_upper_letter_def less_eq_char_def)

lemma upper_idem: "upper (upper s) = upper s"
  by (induction s) (auto simp: upper_def upper_char_def less_eq_char_def)

lemma upper_letters: "list_all is_letter s \<Longrightarrow> list_all is_upper_letter (upper s)"
  by (induction s) (simp_all add: upper_def upper_char_upper)

lemma nth_code_upper: "list_all is_upper_letter (nth_code n)"
proof (induction n rule: nth_code.induct)
  case (1 n)
  show ?case
  proof (cases "n < 26")
    case True
    then show ?thesis
      by (subst nth_code.simps) (auto simp: is_upper_letter_iff)
  next
    case False
    have "n mod 26 < 26" by simp
    then have "is_upper_letter (letter (n mod 26))"
      unfolding is_upper_letter_iff by blast
    with False 1 show ?thesis
      by (subst nth_code.simps) simp
  qed
qed

lemma increment_snoc_Z:
  assumes "upper s = s"
  shows "increment_revision_code (s @ [CHR ''Z'']) = increment_revision_code s @ [CHR ''A'']"
proof -
  have uz: "upper (s @ [CHR ''Z'']) = s @ [CHR ''Z'']"
    using assms by (simp add: upper_def upper_char_def less_eq_char_def)
  from split_trailing_Z [of s] show ?thesis
  proof
    assume "\<exists>k. s = replicate k (CHR ''Z'')"
    then obtain k where k: "s = replicate k (CHR ''Z'')" ..
    have "upper (s @ [CHR ''Z'']) = replicate (Suc k) (CHR ''Z'')"
      using uz k by (simp add: replicate_append_same)
    then have "increment_revision_code (s @ [CHR ''Z'']) = replicate (Suc (Suc k)) (CHR ''A'')"
      by (rule increment_all_Z)
    moreover have "increment_revision_code s = replicate (Suc k) (CHR ''A'')"
      using assms k by (intro increment_all_Z) simp
    ultimately show ?thesis
      by (simp add: replicate_append_same)
  next
    assume "\<exists>xs c k. c \<noteq> CHR ''Z'' \<and> s = xs @ c # replicate k (CHR ''Z'')"
    then obtain xs c k where c: "c \<noteq> CHR ''Z''" and s: "s = xs @ c # replicate k (CHR ''Z'')"
      by blast
    have "upper (s @ [CHR ''Z'']) = xs @ c # replicate (Suc k) (CHR ''Z'')"
      using uz s by (simp add: replicate_append_same)
    then have "increment_revision_code (s @ [CHR ''Z'']) = xs @ next_char c # replicate (Suc k) (CHR ''A'')"
      using c by (intro increment_carry) simp_all
    moreover have "increment_revision_code s = xs @ next_char c # replicate k (CHR ''A'')"
      using assms s c by (intro increment_carry) simp_all
    ultimately show ?thesis
      by (simp add: replicate_append_same)
  qed
qed

lemma increment_snoc_other:
  assumes "upper s = s" and "k < 25"
  shows "increment_revision_code (s @ [letter k]) = s @ [letter (Suc k)]"
proof -
  have "upper (s @ [letter k]) = s @ letter k # replicate 0 (CHR ''Z'')"
    using assms by (simp add: upper_def upper_char_letter)
  moreover have "letter k \<noteq> CHR ''Z''"
    using assms(2) by (simp add: letter_Z_iff)
  ultimately have "increment_revision_code (s @ [letter k]) = s @ next_char (letter k) # replicate 0 (CHR ''A'')"
    by (intro increment_carry) simp_all
  then show ?thesis
    using assms(2) by (simp add: next_char_letter)
qed

lemma increment_nth_code: "increment_revision_code (nth_code n) = nth_code (Suc n)"
proof (induction n rule: nth_code.induct)
  case (1 n)
  show ?case
  proof (cases "n < 26")
    case True
    note small = this
    show ?thesis
    proof (cases "n = 25")
      case True
      have "increment_revision_code ([] @ [CHR ''Z'']) = increment_revision_code [] @ [CHR ''A'']"
        by (rule increment_snoc_Z) (simp add: upper_def)
      moreover have "increment_revision_code [] = ''A''"
        using increment_all_Z [of "[]" 0] by (simp add: upper_def)
      moreover have "nth_code 25 = ''Z''"
        by (subst nth_code.simps) (simp add: letter_25)
      moreover have "nth_code 26 = ''AA''"
        by (subst nth_code.simps, subst nth_code.simps) (simp add: letter_0)
      ultimately show ?thesis using True by simp
    next
      case False
      with small have lt: "n < 25" by simp
      have "increment_revision_code ([] @ [letter n]) = [] @ [letter (Suc n)]"
        using lt by (intro increment_snoc_other) (simp_all add: upper_def)
      moreover have "nth_code n = [letter n]"
        using small by (subst nth_code.simps) simp
      moreover have "nth_code (Suc n) = [letter (Suc n)]"
        using lt by (subst nth_code.simps) simp
      ultimately show ?thesis by simp
    qed
  next
    case False
    define m where "m = n div 26 - 1"
    define r where "r = n mod 26"
    have n: "nth_code n = nth_code m @ [letter r]"
      using False by (subst nth_code.simps) (simp add: m_def r_def)
    have IH: "increment_revision_code (nth_code m) = nth_code (Suc m)"
      using 1 False by (simp add: m_def)
    have up: "upper (nth_code m) = nth_code m"
      by (rule upper_id) (rule nth_code_upper)
    have r26: "r < 26" by (simp add: r_def)
    have big: "\<not> Suc n < 26" using False by simp
    have Sm: "Suc m = n div 26" using False by (simp add: m_def)
    show ?thesis
    proof (cases "r = 25")
      case True
      have "n = 26 * (n div 26) + 25"
        using True mult_div_mod_eq [of 26 n] by (simp add: r_def)
      then have e: "Suc n = Suc (n div 26) * 26" by simp
      have "Suc n mod 26 = 0" and "Suc n div 26 = Suc (n div 26)"
        by (simp_all only: e mod_mult_self2_is_0) simp_all
      then have "nth_code (Suc n) = nth_code (n div 26) @ [letter 0]"
        using big by (subst nth_code.simps) simp
      moreover have "increment_revision_code (nth_code n) = nth_code (Suc m) @ [CHR ''A'']"
        using increment_snoc_Z [OF up] IH n True by (simp add: letter_25)
      ultimately show ?thesis by (simp add: Sm letter_0)
    next
      case False
      with r26 have lt: "r < 25" by simp
      have m1: "Suc n mod 26 = Suc r"
        using lt mod_Suc [of n 26] by (simp add: r_def)
      have "Suc n div 26 = n div 26"
        using m1 div_Suc [of n 26] by simp
      with m1 have "Suc n mod 26 = Suc r" and "Suc n div 26 = n div 26"
        by blast+
      then have "nth_code (Suc n) = nth_code m @ [letter (Suc r)]"
        using big by (subst nth_code.simps) (simp add: m_def)
      moreover have "increment_revision_code (nth_code n) = nth_code m @ [letter (Suc r)]"
        using increment_snoc_other [OF up lt] n by simp
      ultimately show ?thesis by simp
    qed
  qed
qed


lemma code_value_nth_code: "code_value (nth_code n) = Suc n"
proof (induction n rule: nth_code.induct)
  case (1 n)
  show ?case
  proof (cases "n < 26")
    case True
    then show ?thesis
      by (subst nth_code.simps) (simp add: code_value_def of_char_letter)
  next
    case False
    have "n mod 26 < 26" by simp
    then have "of_char (letter (n mod 26)) = 65 + n mod 26" by (rule of_char_letter)
    moreover have "code_value (nth_code (n div 26 - 1)) = Suc (n div 26 - 1)"
      using 1 False by simp
    ultimately have "code_value (nth_code n) = Suc (n div 26 - 1) * 26 + (n mod 26 + 1)"
      using False by (subst nth_code.simps) (simp add: code_value_def)
    also have "\<dots> = Suc n"
    proof -
      have "1 \<le> n div 26" using False by (simp add: Suc_le_eq div_greater_zero_iff)
      then have "Suc (n div 26 - 1) = n div 26" by simp
      then show ?thesis using mult_div_mod_eq [of 26 n] by (simp add: mult.commute)
    qed
    finally show ?thesis .
  qed
qed

lemma nth_code_inj:
  assumes "nth_code a = nth_code b"
  shows "a = b"
proof -
  have "Suc a = code_value (nth_code a)" by (simp only: code_value_nth_code)
  also have "\<dots> = code_value (nth_code b)" by (simp only: assms)
  also have "\<dots> = Suc b" by (rule code_value_nth_code)
  finally show ?thesis by simp
qed

lemma nth_code_0: "nth_code 0 = ''A''"
  by (subst nth_code.simps) (simp add: letter_0)

lemma sort_key_sorted_id: "sorted (map f xs) \<Longrightarrow> sort_key f xs = xs"
  by (induction xs) (auto simp: insort_is_Cons)

lemma get_by_design_sorted:
  "sorted (map generated_at (revisions s)) \<Longrightarrow>
   get_by_design s d = filter (\<lambda>r. design_id r = d) (revisions s)"
  unfolding get_by_design_def
  by (intro sort_key_sorted_id sorted_filter)

lemma next_char_upper:
  assumes "is_upper_letter c" and "c \<noteq> CHR ''Z''"
  shows "is_upper_letter (next_char c) \<and> (of_char (next_char c) :: nat) = of_char c + 1"
proof -
  from assms(1) obtain k where k: "k < 26" "c = letter k"
    unfolding is_upper_letter_iff by blast
  with assms(2) have "k \<noteq> 25" by (auto simp: letter_25)
  with k have lt: "k < 25" by simp
  then have n: "next_char c = letter (Suc k)" using k by (simp add: next_char_letter)
  have "Suc k < 26" using lt by simp
  then have "is_upper_letter (letter (Suc k))" unfolding is_upper_letter_iff by blast
  moreover have "(of_char (letter (Suc k)) :: nat) = of_char (letter k) + 1"
    using lt by (simp add: of_char_letter)
  ultimately show ?thesis using n k by simp
qed

lemma upper_letter_A: "is_upper_letter (CHR ''A'')"
  by code_simp

lemma increment_upper_result:
  assumes "list_all is_letter code"
  shows "list_all is_upper_letter (increment_revision_code code)"
proof -
  have u: "list_all is_upper_letter (upper code)" using assms by (rule upper_letters)
  from split_trailing_Z [of "upper code"] show ?thesis
  proof
    assume "\<exists>k. upper code = replicate k (CHR ''Z'')"
    then obtain k where "upper code = replicate k (CHR ''Z'')" ..
    then have "increment_revision_code code = replicate (Suc k) (CHR ''A'')"
      by (rule increment_all_Z)
    then show ?thesis by (simp add: list_all_iff upper_letter_A)
  next
    assume "\<exists>xs c k. c \<noteq> CHR ''Z'' \<and> upper code = xs @ c # replicate k (CHR ''Z'')"
    then obtain xs c k where c: "c \<noteq> CHR ''Z''" and e: "upper code = xs @ c # replicate k (CHR ''Z'')"
      by blast
    have r: "increment_revision_code code = xs @ next_char c # replicate k (CHR ''A'')"
      using e c by (rule increment_carry)
    have "list_all is_upper_letter xs" and "is_upper_letter c"
      using u e by simp_all
    moreover have "is_upper_letter (next_char c)"
      using next_char_upper [OF \<open>is_upper_letter c\<close> c] by simp
    ultimately show ?thesis
      unfolding r by (auto simp: list_all_iff upper_letter_A)
  qed
qed

lemma increment_case_insensitive:
  "increment_revision_code (upper code) = increment_revision_code code"
  by (simp add: increment_revision_code_def upper_idem)

lemma get_next_revision_code_eq:
  "get_next_revision_code s d =
     (if get_by_design s d = [] then ''A''
      else increment_revision_code (revision_code (last (get_by_design s d))))"
  by (simp add: get_next_revision_code_def Let_def)

section \<open>Claims about the allocator\<close>

text \<open>
  C5. The allocator returns \<open>A\<close> when the design has no revision and otherwise
  increments the code of the last revision in \<open>get_by_design\<close> order, which is creation
  order whenever the stored timestamps do not decrease. Incrementing works on the
  upper-cased code: the last character that is not \<open>Z\<close> becomes its successor and the
  \<open>Z\<close>s after it become \<open>A\<close>; when every character is \<open>Z\<close>, all become \<open>A\<close> and
  one more \<open>A\<close> is put in front. The successor of a capital letter below \<open>Z\<close> is the next
  capital letter, the result for an alphabetic code is in capitals, and on the sequence
  A, B, ..., Z, AA, AB, ... incrementing is the step to the next term.
\<close>

theorem allocator_base26_increment:
  "get_next_revision_code s d =
     (if get_by_design s d = [] then ''A''
      else increment_revision_code (revision_code (last (get_by_design s d))))
   \<and> (sorted (map generated_at (revisions s)) \<longrightarrow>
        get_by_design s d = filter (\<lambda>r. design_id r = d) (revisions s))
   \<and> (c \<noteq> CHR ''Z'' \<and> upper code1 = xs @ c # replicate k (CHR ''Z'') \<longrightarrow>
        increment_revision_code code1 = xs @ next_char c # replicate k (CHR ''A''))
   \<and> (upper code2 = replicate j (CHR ''Z'') \<longrightarrow>
        increment_revision_code code2 = replicate (Suc j) (CHR ''A''))
   \<and> (is_upper_letter c2 \<and> c2 \<noteq> CHR ''Z'' \<longrightarrow>
        is_upper_letter (next_char c2) \<and> (of_char (next_char c2) :: nat) = of_char c2 + 1)
   \<and> increment_revision_code (upper code3) = increment_revision_code code3
   \<and> (list_all is_letter code3 \<longrightarrow> list_all is_upper_letter (increment_revision_code code3))
   \<and> increment_revision_code ''Z'' = ''AA''
   \<and> increment_revision_code ''AZ'' = ''BA''
   \<and> increment_revision_code ''ZZ'' = ''AAA''
   \<and> increment_revision_code (nth_code n) = nth_code (Suc n)"
proof -
  have z: "increment_revision_code ''Z'' = ''AA''" by code_simp
  have az: "increment_revision_code ''AZ'' = ''BA''" by code_simp
  have zz: "increment_revision_code ''ZZ'' = ''AAA''" by code_simp
  show ?thesis
    using get_next_revision_code_eq [of s d] get_by_design_sorted [of s d]
      increment_carry [where code = code1 and c = c and xs = xs and k = k]
      increment_all_Z [where code = code2 and k = j]
      next_char_upper [of c2] increment_case_insensitive [of code3]
      increment_upper_result [of code3] increment_nth_code [of n] z az zz
    by blast
qed


theorem allocator_base26_increment_witness:
  "get_next_revision_code (ex_world [ex_revision 1 ''A'' ''1'', ex_revision 2 ''B'' ''2'']) 1 = ''C''
   \<and> sorted (map generated_at (revisions (ex_world [ex_revision 1 ''A'' ''1'', ex_revision 2 ''B'' ''2''])))
   \<and> get_by_design (ex_world [ex_revision 1 ''A'' ''1'', ex_revision 2 ''B'' ''2'']) 1
       = [ex_revision 1 ''A'' ''1'', ex_revision 2 ''B'' ''2'']
   \<and> upper ''bzz'' = [] @ CHR ''B'' # replicate 2 (CHR ''Z'')
   \<and> increment_revision_code ''bzz'' = ''CAA''
   \<and> upper ''zz'' = replicate 2 (CHR ''Z'')
   \<and> increment_revision_code ''zz'' = ''AAA''
   \<and> is_upper_letter (CHR ''Y'') \<and> next_char (CHR ''Y'') = CHR ''Z''
   \<and> list_all is_letter ''aZ''
   \<and> list_all is_upper_letter (increment_revision_code ''aZ'')"
proof -
  let ?s = "ex_world [ex_revision 1 ''A'' ''1'', ex_revision 2 ''B'' ''2'']"
  have srt: "sorted (map generated_at (revisions ?s))"
    by (simp add: ex_world_def ex_revision_def)
  have u1: "upper ''bzz'' = [] @ CHR ''B'' # replicate 2 (CHR ''Z'')" by code_simp
  have u2: "upper ''zz'' = replicate 2 (CHR ''Z'')" by code_simp
  have l1: "is_upper_letter (CHR ''Y'')" by code_simp
  have l2: "list_all is_letter ''aZ''" by code_simp
  have n1: "next_char (CHR ''B'') = CHR ''C''" by code_simp
  have n2: "next_char (CHR ''Y'') = CHR ''Z''" by code_simp
  have n3: "increment_revision_code ''B'' = ''C''" by code_simp
  have d1: "design_id (ex_revision 1 ''A'' ''1'') = 1" "design_id (ex_revision 2 ''B'' ''2'') = 1"
    "revision_code (ex_revision 2 ''B'' ''2'') = ''B''"
    by (simp_all add: ex_revision_def)
  have rv: "revisions ?s = [ex_revision 1 ''A'' ''1'', ex_revision 2 ''B'' ''2'']"
    by (simp add: ex_world_def)
  note t = allocator_base26_increment [of ?s 1 "CHR ''B''" "''bzz''" "[]" 2 "''zz''" 2
      "CHR ''Y''" "''aZ''" 0]
  show ?thesis
    using t srt u1 u2 l1 l2 n1 n2 n3 d1 rv
    by (simp add: numeral_2_eq_2)
qed


section \<open>The validation loop\<close>

lemma validate_loop_acc:
  "validate_loop ev p rules msgs =
     (case validate_loop ev p rules [] of Inl e \<Rightarrow> Inl e | Inr ms \<Rightarrow> Inr (msgs @ ms))"
proof (induction rules arbitrary: msgs)
  case Nil
  show ?case by simp
next
  case (Cons r rules)
  have step: "\<And>m. validate_loop ev p rules (msgs @ [m]) =
      (case validate_loop ev p rules [m] of Inl e \<Rightarrow> Inl e | Inr ms \<Rightarrow> Inr (msgs @ ms))"
  proof -
    fix m
    have "validate_loop ev p rules (msgs @ [m]) =
      (case validate_loop ev p rules [] of Inl e \<Rightarrow> Inl e | Inr ms \<Rightarrow> Inr ((msgs @ [m]) @ ms))"
      by (rule Cons.IH)
    moreover have "validate_loop ev p rules [m] =
      (case validate_loop ev p rules [] of Inl e \<Rightarrow> Inl e | Inr ms \<Rightarrow> Inr ([m] @ ms))"
      by (rule Cons.IH)
    ultimately show "validate_loop ev p rules (msgs @ [m]) =
      (case validate_loop ev p rules [m] of Inl e \<Rightarrow> Inl e | Inr ms \<Rightarrow> Inr (msgs @ ms))"
      by (simp split: sum.splits)
  qed
  have here: "validate_loop ev p rules msgs =
      (case validate_loop ev p rules [] of Inl e \<Rightarrow> Inl e | Inr ms \<Rightarrow> Inr (msgs @ ms))"
    by (rule Cons.IH)
  show ?case
    by (simp add: Let_def step here split: sum.splits)
qed

lemma Severity_of_ok:
  "declared_severity r \<in> {''error'', ''warning''} \<Longrightarrow>
   Severity_of (dict_get r ''severity'' ''error'') =
     Inr (if declared_severity r = ''warning'' then WARNING else ERROR)"
  by (auto simp: Severity_of_def declared_severity_def)

lemma Severity_of_bad:
  "declared_severity r \<notin> {''error'', ''warning''} \<Longrightarrow>
   Severity_of (dict_get r ''severity'' ''error'') = Inl (ValueError (declared_severity r))"
  by (auto simp: Severity_of_def declared_severity_def)

lemma validate_loop_ok:
  assumes "\<forall>r\<in>set rules. declared_severity r \<in> {''error'', ''warning''}"
  shows "validate_loop ev p rules [] = Inr (concat (map (recorded_for ev p) rules))"
  using assms
proof (induction rules)
  case Nil
  show ?case by simp
next
  case (Cons r rules)
  then have ok: "declared_severity r \<in> {''error'', ''warning''}"
    and IH: "validate_loop ev p rules [] = Inr (concat (map (recorded_for ev p) rules))"
    by simp_all
  have acc: "\<And>m. validate_loop ev p rules [m] = Inr (m # concat (map (recorded_for ev p) rules))"
    by (subst validate_loop_acc) (simp add: IH)
  note here = recorded_for_def [of ev p r]
  show ?case
    by (simp add: Let_def Severity_of_ok [OF ok] acc IH here split: sum.splits)
qed

lemma validate_loop_bad:
  assumes "\<exists>r\<in>set rules. declared_severity r \<notin> {''error'', ''warning''}"
  shows "\<exists>v. validate_loop ev p rules msgs = Inl (ValueError v) \<and> v \<notin> {''error'', ''warning''}"
  using assms
proof (induction rules arbitrary: msgs)
  case Nil
  then show ?case by simp
next
  case (Cons r rules)
  show ?case
  proof (cases "declared_severity r \<in> {''error'', ''warning''}")
    case False
    then show ?thesis
      by (simp add: Let_def Severity_of_bad)
  next
    case True
    with Cons.prems have "\<exists>r\<in>set rules. declared_severity r \<notin> {''error'', ''warning''}"
      by auto
    then have "\<And>ms. \<exists>v. validate_loop ev p rules ms = Inl (ValueError v) \<and> v \<notin> {''error'', ''warning''}"
      by (rule Cons.IH)
    then show ?thesis
      by (simp add: Let_def Severity_of_ok [OF True] split: sum.splits)
  qed
qed

lemma validate_ok:
  assumes "\<forall>r\<in>set rules. declared_severity r \<in> {''error'', ''warning''}"
  shows "validate ev p rules =
     Inr \<lparr>is_valid = \<not> list_ex (\<lambda>m. severity m = ERROR) (concat (map (recorded_for ev p) rules)),
          messages = concat (map (recorded_for ev p) rules)\<rparr>"
  by (simp add: validate_def validate_loop_ok [OF assms])

lemma validate_bad:
  assumes "\<exists>r\<in>set rules. declared_severity r \<notin> {''error'', ''warning''}"
  shows "\<exists>v. validate ev p rules = Inl (ValueError v) \<and> v \<notin> {''error'', ''warning''}"
  using validate_loop_bad [OF assms, of ev p "[]"]
  by (auto simp: validate_def)

lemma validate_is_valid:
  assumes "validate ev p rules = Inr res"
  shows "is_valid res = (errors res = [])"
  using assms
  by (auto simp: validate_def errors_def list_ex_iff filter_empty_conv split: sum.splits)



lemmas ex_validation_defs =
  validate_def ex_rules_def ex_eval_def dict_get_def Severity_of_def declared_severity_def
  recorded_for_def errors_def warnings_def Let_def

text \<open>
  C3. Whenever \<open>validate\<close> returns a result, \<open>is_valid\<close> holds exactly when the number of
  recorded messages of severity error is zero; a result whose messages are all warnings is
  valid; and the empty rule list gives a valid result without messages.
\<close>

theorem validity_is_absence_of_errors:
  "(validate ev p rules = Inr res \<longrightarrow>
      is_valid res = (length (errors res) = 0)
      \<and> (list_all (\<lambda>m. severity m = WARNING) (messages res) \<longrightarrow> is_valid res))
   \<and> validate ev p [] = Inr \<lparr>is_valid = True, messages = []\<rparr>"
proof -
  have "is_valid res = (length (errors res) = 0)" if "validate ev p rules = Inr res"
    using validate_is_valid [OF that] by simp
  moreover have "is_valid res"
    if "validate ev p rules = Inr res" and "list_all (\<lambda>m. severity m = WARNING) (messages res)"
    using that validate_is_valid [OF that(1)]
    by (auto simp: errors_def filter_empty_conv list_all_iff)
  moreover have "validate ev p [] = Inr \<lparr>is_valid = True, messages = []\<rparr>"
    by (simp add: validate_def)
  ultimately show ?thesis by blast
qed

theorem validity_is_absence_of_errors_witness:
  "validate ex_eval [(''espesor'', 12), (''largo'', 3000), (''ancho'', 200)] ex_rules =
     Inr \<lparr>is_valid = True,
          messages = [\<lparr>rule_id = ''VR-BP-02'', severity = WARNING,
                       message = ''Relacion largo/ancho supera 10:1.''\<rparr>]\<rparr>
   \<and> list_all (\<lambda>m. severity m = WARNING)
        (messages \<lparr>is_valid = True,
                   messages = [\<lparr>rule_id = ''VR-BP-02'', severity = WARNING,
                                message = ''Relacion largo/ancho supera 10:1.''\<rparr>]\<rparr>)
   \<and> length (errors \<lparr>is_valid = True,
                      messages = [\<lparr>rule_id = ''VR-BP-02'', severity = WARNING,
                                   message = ''Relacion largo/ancho supera 10:1.''\<rparr>]\<rparr>) = 0
   \<and> validate ex_eval [(''espesor'', 2), (''largo'', 300), (''ancho'', 200)] ex_rules =
     Inr \<lparr>is_valid = False,
          messages = [\<lparr>rule_id = ''VR-BP-01'', severity = ERROR,
                       message = ''Espesor minimo 4 mm.''\<rparr>]\<rparr>
   \<and> length (errors \<lparr>is_valid = False,
                      messages = [\<lparr>rule_id = ''VR-BP-01'', severity = ERROR,
                                   message = ''Espesor minimo 4 mm.''\<rparr>]\<rparr>) = 1"
proof -
  let ?w = "\<lparr>is_valid = True,
             messages = [\<lparr>rule_id = ''VR-BP-02'', severity = WARNING,
                          message = ''Relacion largo/ancho supera 10:1.''\<rparr>]\<rparr>"
  let ?e = "\<lparr>is_valid = False,
             messages = [\<lparr>rule_id = ''VR-BP-01'', severity = ERROR,
                          message = ''Espesor minimo 4 mm.''\<rparr>]\<rparr>"
  have a: "validate ex_eval [(''espesor'', 12), (''largo'', 3000), (''ancho'', 200)] ex_rules
             = Inr ?w"
    by (simp add: ex_validation_defs)
  have b: "validate ex_eval [(''espesor'', 2), (''largo'', 300), (''ancho'', 200)] ex_rules
             = Inr ?e"
    by (simp add: ex_validation_defs)
  have c: "list_all (\<lambda>m. severity m = WARNING) (messages ?w)" by simp
  show ?thesis
    using a b c
      validity_is_absence_of_errors
        [of ex_eval "[(''espesor'', 12), (''largo'', 3000), (''ancho'', 200)]" ex_rules ?w]
      validity_is_absence_of_errors
        [of ex_eval "[(''espesor'', 2), (''largo'', 300), (''ancho'', 200)]" ex_rules ?e]
    by (simp add: errors_def)
qed

text \<open>
  C4. When every rule declares a severity of the enumeration, \<open>validate\<close> returns, whatever
  the evaluator does (its faults stay inside), and the recorded messages are, rule by rule
  in input order, what the specification says each rule records: for a fault the rule's
  id, severity error and the composite message; for a falsy result the rule's id, declared
  severity and declared message; for a truthy result nothing.
\<close>

theorem rules_recorded_in_input_order:
  "(\<forall>r\<in>set rules. declared_severity r \<in> {''error'', ''warning''}) \<longrightarrow>
     (\<exists>res. validate ev p rules = Inr res
        \<and> messages res = concat (map (recorded_for ev p) rules))"
proof
  assume ok: "\<forall>r\<in>set rules. declared_severity r \<in> {''error'', ''warning''}"
  show "\<exists>res. validate ev p rules = Inr res
        \<and> messages res = concat (map (recorded_for ev p) rules)"
    by (simp add: validate_ok [OF ok])
qed

theorem rules_recorded_in_input_order_witness:
  "list_all (\<lambda>r. declared_severity r \<in> {''error'', ''warning''}) ex_rules
   \<and> ex_eval ''espesor >= 4'' [(''largo'', 3000), (''ancho'', 200)]
       = Inl ''name 'espesor' is not defined''
   \<and> ex_eval ''largo <= 10 * ancho'' [(''largo'', 3000), (''ancho'', 200)] = Inr False
   \<and> (\<exists>res. validate ex_eval [(''largo'', 3000), (''ancho'', 200)] ex_rules = Inr res
        \<and> messages res =
           [\<lparr>rule_id = ''VR-BP-01'', severity = ERROR,
             message = ''[Error evaluando regla: name 'espesor' is not defined] Espesor minimo 4 mm.''\<rparr>,
            \<lparr>rule_id = ''VR-BP-02'', severity = WARNING,
             message = ''Relacion largo/ancho supera 10:1.''\<rparr>])"
proof -
  have ok: "\<forall>r\<in>set ex_rules. declared_severity r \<in> {''error'', ''warning''}"
    by (simp add: ex_rules_def declared_severity_def dict_get_def)
  have c: "concat (map (recorded_for ex_eval [(''largo'', 3000), (''ancho'', 200)]) ex_rules) =
           [\<lparr>rule_id = ''VR-BP-01'', severity = ERROR,
             message = ''[Error evaluando regla: name 'espesor' is not defined] Espesor minimo 4 mm.''\<rparr>,
            \<lparr>rule_id = ''VR-BP-02'', severity = WARNING,
             message = ''Relacion largo/ancho supera 10:1.''\<rparr>]"
    by (simp add: ex_validation_defs)
  have e1: "ex_eval ''espesor >= 4'' [(''largo'', 3000), (''ancho'', 200)]
       = Inl ''name 'espesor' is not defined''"
    by (simp add: ex_eval_def)
  have e2: "ex_eval ''largo <= 10 * ancho'' [(''largo'', 3000), (''ancho'', 200)] = Inr False"
    by (simp add: ex_eval_def)
  show ?thesis
    using rules_recorded_in_input_order [of ex_rules ex_eval "[(''largo'', 3000), (''ancho'', 200)]"]
      ok c e1 e2
    by (simp add: list_all_iff)
qed

text \<open>
  C10. A rule list containing a rule whose declared severity is neither \<open>error\<close> nor
  \<open>warning\<close> makes \<open>validate\<close> raise \<open>ValueError\<close> (from the \<open>Severity\<close> constructor) instead
  of returning a result; a rule list whose declared severities are all in the enumeration
  makes it return one.
\<close>

theorem validate_total_iff_severities_declared:
  "((\<exists>r\<in>set rules. declared_severity r \<notin> {''error'', ''warning''}) \<longrightarrow>
      (\<exists>v. validate ev p rules = Inl (ValueError v) \<and> v \<notin> {''error'', ''warning''}))
   \<and> ((\<forall>r\<in>set rules. declared_severity r \<in> {''error'', ''warning''}) \<longrightarrow>
      (\<exists>res. validate ev p rules = Inr res))"
proof (intro conjI impI)
  assume "\<exists>r\<in>set rules. declared_severity r \<notin> {''error'', ''warning''}"
  then show "\<exists>v. validate ev p rules = Inl (ValueError v) \<and> v \<notin> {''error'', ''warning''}"
    by (rule validate_bad)
next
  assume ok: "\<forall>r\<in>set rules. declared_severity r \<in> {''error'', ''warning''}"
  show "\<exists>res. validate ev p rules = Inr res"
    by (simp add: validate_ok [OF ok])
qed

theorem validate_total_iff_severities_declared_witness:
  "list_ex (\<lambda>r. declared_severity r \<notin> {''error'', ''warning''})
     (ex_rules @ [[''rule_id'' \<mapsto> ''VR-X'', ''severity'' \<mapsto> ''info'']])
   \<and> validate ex_eval [(''espesor'', 12), (''largo'', 300), (''ancho'', 200)]
        (ex_rules @ [[''rule_id'' \<mapsto> ''VR-X'', ''severity'' \<mapsto> ''info'']])
       = Inl (ValueError ''info'')
   \<and> list_all (\<lambda>r. declared_severity r \<in> {''error'', ''warning''}) ex_rules
   \<and> validate ex_eval [(''espesor'', 12), (''largo'', 300), (''ancho'', 200)] ex_rules
       = Inr \<lparr>is_valid = True, messages = []\<rparr>"
proof -
  have a: "validate ex_eval [(''espesor'', 12), (''largo'', 300), (''ancho'', 200)]
        (ex_rules @ [[''rule_id'' \<mapsto> ''VR-X'', ''severity'' \<mapsto> ''info'']])
       = Inl (ValueError ''info'')"
    by (simp add: ex_validation_defs)
  have b: "validate ex_eval [(''espesor'', 12), (''largo'', 300), (''ancho'', 200)] ex_rules
       = Inr \<lparr>is_valid = True, messages = []\<rparr>"
    by (simp add: ex_validation_defs)
  have c: "\<exists>r\<in>set (ex_rules @ [[''rule_id'' \<mapsto> ''VR-X'', ''severity'' \<mapsto> ''info'']]).
       declared_severity r \<notin> {''error'', ''warning''}"
    by (simp add: declared_severity_def dict_get_def)
  have d: "\<forall>r\<in>set ex_rules. declared_severity r \<in> {''error'', ''warning''}"
    by (simp add: ex_rules_def declared_severity_def dict_get_def)
  show ?thesis
    using validate_total_iff_severities_declared
        [of "ex_rules @ [[''rule_id'' \<mapsto> ''VR-X'', ''severity'' \<mapsto> ''info'']]"
            ex_eval "[(''espesor'', 12), (''largo'', 300), (''ancho'', 200)]"]
      validate_total_iff_severities_declared
        [of ex_rules ex_eval "[(''espesor'', 12), (''largo'', 300), (''ancho'', 200)]"]
      a b c d
    by (simp add: list_all_iff list_ex_iff)
qed


section \<open>Updating a stored revision\<close>

lemma find_put:
  "find (\<lambda>r. rev_id r = j) (map (\<lambda>r. if rev_id r = rev_id rv then rv else r) rows) =
     (if j = rev_id rv
      then (case find (\<lambda>r. rev_id r = j) rows of None \<Rightarrow> None | Some x \<Rightarrow> Some rv)
      else find (\<lambda>r. rev_id r = j) rows)"
  by (induction rows) auto

lemma get_by_id_put:
  "get_by_id (put_revision s rv) j =
     (if j = rev_id rv
      then (case get_by_id s j of None \<Rightarrow> None | Some x \<Rightarrow> Some rv)
      else get_by_id s j)"
  by (simp add: get_by_id_def put_revision_def find_put)

lemma get_by_id_rev_id: "get_by_id s j = Some rv \<Longrightarrow> rev_id rv = j"
  by (auto simp: get_by_id_def find_Some_iff)

lemma put_revision_frame:
  "designs (put_revision s rv) = designs s"
  "piece_types (put_revision s rv) = piece_types s"
  "engine_calls (put_revision s rv) = engine_calls s"
  "made_dirs (put_revision s rv) = made_dirs s"
  by (simp_all add: put_revision_def)

lemma put_revision_ids:
  "map rev_id (revisions (put_revision s rv)) = map rev_id (revisions s)"
  by (simp add: put_revision_def)

lemma update_eco_status_invalid:
  "status \<notin> set [''draft'', ''issued'', ''obsolete''] \<Longrightarrow>
   update_eco_status s rid status n r = (Inl (ValueError status), s)"
  by (simp add: update_eco_status_def)

lemma update_eco_status_missing:
  "status \<in> set [''draft'', ''issued'', ''obsolete''] \<Longrightarrow> get_by_id s rid = None \<Longrightarrow>
   update_eco_status s rid status n r = (Inr None, s)"
  by (simp add: update_eco_status_def)

lemma update_eco_status_found:
  assumes "status \<in> set [''draft'', ''issued'', ''obsolete'']" and "get_by_id s rid = Some rv"
  shows "update_eco_status s rid status n r =
     (let rv' = rv\<lparr>eco_status := status,
                    eco_number := (case n of None \<Rightarrow> eco_number rv | Some x \<Rightarrow> Some x),
                    eco_reason := (case r of None \<Rightarrow> eco_reason rv | Some x \<Rightarrow> Some x)\<rparr>
      in (Inr (Some rv'), put_revision s rv'))"
  using assms
  by (simp add: update_eco_status_def Let_def split: option.splits)

lemma update_output_paths_found:
  assumes "get_by_id s rid = Some rv"
  shows "update_output_paths s rid paths =
     (let rv' = rv\<lparr>fcstd_path := paths_get paths ''fcstd'',
                    step_path := paths_get paths ''step'',
                    dxf_path := paths_get paths ''dxf'',
                    pdf_path := paths_get paths ''pdf'',
                    bom_xlsx_path := paths_get paths ''bom_xlsx'',
                    bom_pdf_path := paths_get paths ''bom_pdf''\<rparr>
      in (Some rv', put_revision s rv'))"
  using assms by (simp add: update_output_paths_def)


text \<open>
  C7. \<open>update_eco_status\<close> raises (\<open>ValueError\<close> in the code) when the status is not one of
  draft, issued, obsolete, and nothing in the database changes. With a status of the
  three and an existing revision, the revision gets that status, and the ECO number and
  reason when they are supplied; every other field of the revision keeps its value, every
  other revision is as before, and no other table changes.
\<close>

theorem update_eco_status_contract:
  "(status \<notin> set [''draft'', ''issued'', ''obsolete''] \<longrightarrow>
      update_eco_status s rid status n r = (Inl (ValueError status), s))
   \<and> (status \<in> set [''draft'', ''issued'', ''obsolete''] \<and> get_by_id s rid = Some rv \<longrightarrow>
      (\<exists>rv' s'. update_eco_status s rid status n r = (Inr (Some rv'), s')
         \<and> get_by_id s' rid = Some rv'
         \<and> eco_status rv' = status
         \<and> eco_number rv' = (case n of None \<Rightarrow> eco_number rv | Some x \<Rightarrow> Some x)
         \<and> eco_reason rv' = (case r of None \<Rightarrow> eco_reason rv | Some x \<Rightarrow> Some x)
         \<and> rev_id rv' = rev_id rv \<and> design_id rv' = design_id rv
         \<and> revision_code rv' = revision_code rv \<and> parameters_json rv' = parameters_json rv
         \<and> description rv' = description rv \<and> generated_at rv' = generated_at rv
         \<and> generated_by rv' = generated_by rv \<and> fcstd_path rv' = fcstd_path rv
         \<and> step_path rv' = step_path rv \<and> dxf_path rv' = dxf_path rv
         \<and> pdf_path rv' = pdf_path rv \<and> bom_xlsx_path rv' = bom_xlsx_path rv
         \<and> bom_pdf_path rv' = bom_pdf_path rv \<and> validation_passed rv' = validation_passed rv
         \<and> validation_warnings_json rv' = validation_warnings_json rv
         \<and> (j \<noteq> rid \<longrightarrow> get_by_id s' j = get_by_id s j)
         \<and> map rev_id (revisions s') = map rev_id (revisions s)
         \<and> designs s' = designs s \<and> piece_types s' = piece_types s
         \<and> engine_calls s' = engine_calls s \<and> made_dirs s' = made_dirs s))"
proof (intro conjI impI)
  assume "status \<notin> set [''draft'', ''issued'', ''obsolete'']"
  then show "update_eco_status s rid status n r = (Inl (ValueError status), s)"
    by (rule update_eco_status_invalid)
next
  assume a: "status \<in> set [''draft'', ''issued'', ''obsolete''] \<and> get_by_id s rid = Some rv"
  define rv' where "rv' = rv\<lparr>eco_status := status,
                    eco_number := (case n of None \<Rightarrow> eco_number rv | Some x \<Rightarrow> Some x),
                    eco_reason := (case r of None \<Rightarrow> eco_reason rv | Some x \<Rightarrow> Some x)\<rparr>"
  have u: "update_eco_status s rid status n r = (Inr (Some rv'), put_revision s rv')"
    using a update_eco_status_found [of status s rid rv n r] by (simp add: rv'_def Let_def)
  have i: "rev_id rv' = rid"
    using a get_by_id_rev_id [of s rid rv] by (simp add: rv'_def)
  have g: "get_by_id (put_revision s rv') rid = Some rv'"
    using a i by (simp add: get_by_id_put)
  have o: "j \<noteq> rid \<longrightarrow> get_by_id (put_revision s rv') j = get_by_id s j"
    using i by (simp add: get_by_id_put)
  have f: "eco_status rv' = status"
    "eco_number rv' = (case n of None \<Rightarrow> eco_number rv | Some x \<Rightarrow> Some x)"
    "eco_reason rv' = (case r of None \<Rightarrow> eco_reason rv | Some x \<Rightarrow> Some x)"
    "rev_id rv' = rev_id rv" "design_id rv' = design_id rv"
    "revision_code rv' = revision_code rv" "parameters_json rv' = parameters_json rv"
    "description rv' = description rv" "generated_at rv' = generated_at rv"
    "generated_by rv' = generated_by rv" "fcstd_path rv' = fcstd_path rv"
    "step_path rv' = step_path rv" "dxf_path rv' = dxf_path rv"
    "pdf_path rv' = pdf_path rv" "bom_xlsx_path rv' = bom_xlsx_path rv"
    "bom_pdf_path rv' = bom_pdf_path rv" "validation_passed rv' = validation_passed rv"
    "validation_warnings_json rv' = validation_warnings_json rv"
    by (simp_all add: rv'_def)
  show "\<exists>rv' s'. update_eco_status s rid status n r = (Inr (Some rv'), s')
         \<and> get_by_id s' rid = Some rv'
         \<and> eco_status rv' = status
         \<and> eco_number rv' = (case n of None \<Rightarrow> eco_number rv | Some x \<Rightarrow> Some x)
         \<and> eco_reason rv' = (case r of None \<Rightarrow> eco_reason rv | Some x \<Rightarrow> Some x)
         \<and> rev_id rv' = rev_id rv \<and> design_id rv' = design_id rv
         \<and> revision_code rv' = revision_code rv \<and> parameters_json rv' = parameters_json rv
         \<and> description rv' = description rv \<and> generated_at rv' = generated_at rv
         \<and> generated_by rv' = generated_by rv \<and> fcstd_path rv' = fcstd_path rv
         \<and> step_path rv' = step_path rv \<and> dxf_path rv' = dxf_path rv
         \<and> pdf_path rv' = pdf_path rv \<and> bom_xlsx_path rv' = bom_xlsx_path rv
         \<and> bom_pdf_path rv' = bom_pdf_path rv \<and> validation_passed rv' = validation_passed rv
         \<and> validation_warnings_json rv' = validation_warnings_json rv
         \<and> (j \<noteq> rid \<longrightarrow> get_by_id s' j = get_by_id s j)
         \<and> map rev_id (revisions s') = map rev_id (revisions s)
         \<and> designs s' = designs s \<and> piece_types s' = piece_types s
         \<and> engine_calls s' = engine_calls s \<and> made_dirs s' = made_dirs s"
    apply (rule exI [of _ rv'])
    apply (rule exI [of _ "put_revision s rv'"])
    apply (simp only: u g f put_revision_frame put_revision_ids)
    apply (simp add: o)
    done
qed

theorem update_eco_status_contract_witness:
  "''archived'' \<notin> set [''draft'', ''issued'', ''obsolete'']
   \<and> update_eco_status (ex_world [ex_revision 1 ''A'' ''1'', ex_revision 2 ''B'' ''2'']) 2
        ''archived'' None None
       = (Inl (ValueError ''archived''),
          ex_world [ex_revision 1 ''A'' ''1'', ex_revision 2 ''B'' ''2''])
   \<and> ''issued'' \<in> set [''draft'', ''issued'', ''obsolete'']
   \<and> get_by_id (ex_world [ex_revision 1 ''A'' ''1'', ex_revision 2 ''B'' ''2'']) 2
       = Some (ex_revision 2 ''B'' ''2'')
   \<and> update_eco_status (ex_world [ex_revision 1 ''A'' ''1'', ex_revision 2 ''B'' ''2'']) 2
        ''issued'' (Some ''ECO-001'') None
       = (Inr (Some ((ex_revision 2 ''B'' ''2'')
                      \<lparr>eco_status := ''issued'', eco_number := Some ''ECO-001''\<rparr>)),
          ex_world [ex_revision 1 ''A'' ''1'',
                    (ex_revision 2 ''B'' ''2'')
                      \<lparr>eco_status := ''issued'', eco_number := Some ''ECO-001''\<rparr>])"
proof -
  let ?s = "ex_world [ex_revision 1 ''A'' ''1'', ex_revision 2 ''B'' ''2'']"
  have g: "get_by_id ?s 2 = Some (ex_revision 2 ''B'' ''2'')"
    by (simp add: get_by_id_def ex_world_def ex_revision_def)
  have a: "''archived'' \<notin> set [''draft'', ''issued'', ''obsolete'']" by simp
  have b: "''issued'' \<in> set [''draft'', ''issued'', ''obsolete'']" by simp
  have u: "update_eco_status ?s 2 ''issued'' (Some ''ECO-001'') None
       = (Inr (Some ((ex_revision 2 ''B'' ''2'')
                      \<lparr>eco_status := ''issued'', eco_number := Some ''ECO-001''\<rparr>)),
          ex_world [ex_revision 1 ''A'' ''1'',
                    (ex_revision 2 ''B'' ''2'')
                      \<lparr>eco_status := ''issued'', eco_number := Some ''ECO-001''\<rparr>])"
    using update_eco_status_found [OF b g, of "Some ''ECO-001''" None]
    by (simp add: Let_def put_revision_def ex_world_def ex_revision_def)
  show ?thesis
    using update_eco_status_contract [of "''archived''" ?s 2 None None "ex_revision 2 ''B'' ''2''" 1]
      update_eco_status_contract
        [of "''issued''" ?s 2 "Some ''ECO-001''" None "ex_revision 2 ''B'' ''2''" 1]
      a b g u
    by simp
qed

lemma paths_get_cases:
  "paths_get paths k = (case paths k of None \<Rightarrow> None | Some v \<Rightarrow> v)"
  by (simp add: paths_get_def)

text \<open>
  C8. For an existing revision, \<open>update_output_paths\<close> sets each of the six path fields to
  what \<open>paths\<close> gives for its key, and to absent when \<open>paths\<close> has no such key, whatever the
  field held before; every other field of the revision keeps its value, every other
  revision is as before, and no other table changes.
\<close>

theorem update_output_paths_overwrites_all_six:
  "get_by_id s rid = Some rv \<longrightarrow>
     (\<exists>rv' s'. update_output_paths s rid paths = (Some rv', s')
        \<and> get_by_id s' rid = Some rv'
        \<and> fcstd_path rv' = (case paths ''fcstd'' of None \<Rightarrow> None | Some v \<Rightarrow> v)
        \<and> step_path rv' = (case paths ''step'' of None \<Rightarrow> None | Some v \<Rightarrow> v)
        \<and> dxf_path rv' = (case paths ''dxf'' of None \<Rightarrow> None | Some v \<Rightarrow> v)
        \<and> pdf_path rv' = (case paths ''pdf'' of None \<Rightarrow> None | Some v \<Rightarrow> v)
        \<and> bom_xlsx_path rv' = (case paths ''bom_xlsx'' of None \<Rightarrow> None | Some v \<Rightarrow> v)
        \<and> bom_pdf_path rv' = (case paths ''bom_pdf'' of None \<Rightarrow> None | Some v \<Rightarrow> v)
        \<and> rev_id rv' = rev_id rv \<and> design_id rv' = design_id rv
        \<and> revision_code rv' = revision_code rv \<and> parameters_json rv' = parameters_json rv
        \<and> description rv' = description rv \<and> generated_at rv' = generated_at rv
        \<and> generated_by rv' = generated_by rv \<and> eco_number rv' = eco_number rv
        \<and> eco_reason rv' = eco_reason rv \<and> eco_status rv' = eco_status rv
        \<and> validation_passed rv' = validation_passed rv
        \<and> validation_warnings_json rv' = validation_warnings_json rv
        \<and> (j \<noteq> rid \<longrightarrow> get_by_id s' j = get_by_id s j)
        \<and> map rev_id (revisions s') = map rev_id (revisions s)
        \<and> designs s' = designs s \<and> piece_types s' = piece_types s
        \<and> engine_calls s' = engine_calls s \<and> made_dirs s' = made_dirs s)"
proof
  assume a: "get_by_id s rid = Some rv"
  define rv' where "rv' = rv\<lparr>fcstd_path := paths_get paths ''fcstd'',
                    step_path := paths_get paths ''step'',
                    dxf_path := paths_get paths ''dxf'',
                    pdf_path := paths_get paths ''pdf'',
                    bom_xlsx_path := paths_get paths ''bom_xlsx'',
                    bom_pdf_path := paths_get paths ''bom_pdf''\<rparr>"
  have u: "update_output_paths s rid paths = (Some rv', put_revision s rv')"
    using update_output_paths_found [OF a, of paths] by (simp add: rv'_def Let_def)
  have i: "rev_id rv' = rid"
    using a get_by_id_rev_id [of s rid rv] by (simp add: rv'_def)
  have g: "get_by_id (put_revision s rv') rid = Some rv'"
    using a i by (simp add: get_by_id_put)
  have o: "j \<noteq> rid \<longrightarrow> get_by_id (put_revision s rv') j = get_by_id s j"
    using i by (simp add: get_by_id_put)
  have f: "fcstd_path rv' = (case paths ''fcstd'' of None \<Rightarrow> None | Some v \<Rightarrow> v)"
    "step_path rv' = (case paths ''step'' of None \<Rightarrow> None | Some v \<Rightarrow> v)"
    "dxf_path rv' = (case paths ''dxf'' of None \<Rightarrow> None | Some v \<Rightarrow> v)"
    "pdf_path rv' = (case paths ''pdf'' of None \<Rightarrow> None | Some v \<Rightarrow> v)"
    "bom_xlsx_path rv' = (case paths ''bom_xlsx'' of None \<Rightarrow> None | Some v \<Rightarrow> v)"
    "bom_pdf_path rv' = (case paths ''bom_pdf'' of None \<Rightarrow> None | Some v \<Rightarrow> v)"
    "rev_id rv' = rev_id rv" "design_id rv' = design_id rv"
    "revision_code rv' = revision_code rv" "parameters_json rv' = parameters_json rv"
    "description rv' = description rv" "generated_at rv' = generated_at rv"
    "generated_by rv' = generated_by rv" "eco_number rv' = eco_number rv"
    "eco_reason rv' = eco_reason rv" "eco_status rv' = eco_status rv"
    "validation_passed rv' = validation_passed rv"
    "validation_warnings_json rv' = validation_warnings_json rv"
    by (simp_all add: rv'_def paths_get_cases)
  show "\<exists>rv' s'. update_output_paths s rid paths = (Some rv', s')
        \<and> get_by_id s' rid = Some rv'
        \<and> fcstd_path rv' = (case paths ''fcstd'' of None \<Rightarrow> None | Some v \<Rightarrow> v)
        \<and> step_path rv' = (case paths ''step'' of None \<Rightarrow> None | Some v \<Rightarrow> v)
        \<and> dxf_path rv' = (case paths ''dxf'' of None \<Rightarrow> None | Some v \<Rightarrow> v)
        \<and> pdf_path rv' = (case paths ''pdf'' of None \<Rightarrow> None | Some v \<Rightarrow> v)
        \<and> bom_xlsx_path rv' = (case paths ''bom_xlsx'' of None \<Rightarrow> None | Some v \<Rightarrow> v)
        \<and> bom_pdf_path rv' = (case paths ''bom_pdf'' of None \<Rightarrow> None | Some v \<Rightarrow> v)
        \<and> rev_id rv' = rev_id rv \<and> design_id rv' = design_id rv
        \<and> revision_code rv' = revision_code rv \<and> parameters_json rv' = parameters_json rv
        \<and> description rv' = description rv \<and> generated_at rv' = generated_at rv
        \<and> generated_by rv' = generated_by rv \<and> eco_number rv' = eco_number rv
        \<and> eco_reason rv' = eco_reason rv \<and> eco_status rv' = eco_status rv
        \<and> validation_passed rv' = validation_passed rv
        \<and> validation_warnings_json rv' = validation_warnings_json rv
        \<and> (j \<noteq> rid \<longrightarrow> get_by_id s' j = get_by_id s j)
        \<and> map rev_id (revisions s') = map rev_id (revisions s)
        \<and> designs s' = designs s \<and> piece_types s' = piece_types s
        \<and> engine_calls s' = engine_calls s \<and> made_dirs s' = made_dirs s"
    apply (rule exI [of _ rv'])
    apply (rule exI [of _ "put_revision s rv'"])
    apply (simp only: u g f put_revision_frame put_revision_ids)
    apply (simp add: o)
    done
qed

theorem update_output_paths_overwrites_all_six_witness:
  "get_by_id (ex_world [ex_revision 1 ''A'' ''1'', ex_revision 2 ''B'' ''2'']) 2
       = Some (ex_revision 2 ''B'' ''2'')
   \<and> fcstd_path (ex_revision 2 ''B'' ''2'') = Some ''old.FCStd''
   \<and> dxf_path (ex_revision 2 ''B'' ''2'') = Some ''old.dxf''
   \<and> update_output_paths (ex_world [ex_revision 1 ''A'' ''1'', ex_revision 2 ''B'' ''2'']) 2
        [''fcstd'' \<mapsto> Some ''/outputs/PB_B.FCStd'', ''step'' \<mapsto> Some ''/outputs/PB_B.step'']
       = (Some ((ex_revision 2 ''B'' ''2'')
                  \<lparr>fcstd_path := Some ''/outputs/PB_B.FCStd'',
                    step_path := Some ''/outputs/PB_B.step'', dxf_path := None\<rparr>),
          ex_world [ex_revision 1 ''A'' ''1'',
                    (ex_revision 2 ''B'' ''2'')
                      \<lparr>fcstd_path := Some ''/outputs/PB_B.FCStd'',
                        step_path := Some ''/outputs/PB_B.step'', dxf_path := None\<rparr>])"
proof -
  let ?s = "ex_world [ex_revision 1 ''A'' ''1'', ex_revision 2 ''B'' ''2'']"
  have g: "get_by_id ?s 2 = Some (ex_revision 2 ''B'' ''2'')"
    by (simp add: get_by_id_def ex_world_def ex_revision_def)
  have p: "fcstd_path (ex_revision 2 ''B'' ''2'') = Some ''old.FCStd''"
    "dxf_path (ex_revision 2 ''B'' ''2'') = Some ''old.dxf''"
    by (simp_all add: ex_revision_def)
  have u: "update_output_paths ?s 2
        [''fcstd'' \<mapsto> Some ''/outputs/PB_B.FCStd'', ''step'' \<mapsto> Some ''/outputs/PB_B.step'']
       = (Some ((ex_revision 2 ''B'' ''2'')
                  \<lparr>fcstd_path := Some ''/outputs/PB_B.FCStd'',
                    step_path := Some ''/outputs/PB_B.step'', dxf_path := None\<rparr>),
          ex_world [ex_revision 1 ''A'' ''1'',
                    (ex_revision 2 ''B'' ''2'')
                      \<lparr>fcstd_path := Some ''/outputs/PB_B.FCStd'',
                        step_path := Some ''/outputs/PB_B.step'', dxf_path := None\<rparr>])"
    using update_output_paths_found
        [OF g, of "[''fcstd'' \<mapsto> Some ''/outputs/PB_B.FCStd'', ''step'' \<mapsto> Some ''/outputs/PB_B.step'']"]
    by (simp add: Let_def paths_get_def put_revision_def ex_world_def ex_revision_def)
  show ?thesis
    using update_output_paths_overwrites_all_six
        [of ?s 2 "ex_revision 2 ''B'' ''2''"
            "[''fcstd'' \<mapsto> Some ''/outputs/PB_B.FCStd'', ''step'' \<mapsto> Some ''/outputs/PB_B.step'']" 1]
      g p u
    by simp
qed


section \<open>The outcomes of one generation\<close>

lemma fold_max_ge: "a \<le> fold max xs (a::nat)"
proof (induction xs arbitrary: a)
  case Nil
  show ?case by simp
next
  case (Cons x xs)
  have "a \<le> max x a" by simp
  also have "\<dots> \<le> fold max xs (max x a)" by (rule Cons.IH)
  finally show ?case by simp
qed

lemma fold_max_mem: "x \<in> set xs \<Longrightarrow> x \<le> fold max xs (a::nat)"
proof (induction xs arbitrary: a)
  case Nil
  then show ?case by simp
next
  case (Cons y xs)
  show ?case
  proof (cases "x = y")
    case True
    have "x \<le> max y a" using True by simp
    also have "\<dots> \<le> fold max xs (max y a)" by (rule fold_max_ge)
    finally show ?thesis by simp
  next
    case False
    with Cons.prems have "x \<in> set xs" by simp
    then have "x \<le> fold max xs (max y a)" by (rule Cons.IH)
    then show ?thesis by simp
  qed
qed

lemma rev_id_lt_next: "r \<in> set (revisions s) \<Longrightarrow> rev_id r < next_rev_id s"
proof -
  assume "r \<in> set (revisions s)"
  then have "rev_id r \<in> set (map rev_id (revisions s))" by simp
  then have "rev_id r \<le> fold max (map rev_id (revisions s)) 0" by (rule fold_max_mem)
  then show ?thesis by (simp add: next_rev_id_def)
qed

lemma find_last_fresh:
  assumes "\<forall>r\<in>set rows. rev_id r \<noteq> i" and "rev_id y = i"
  shows "find (\<lambda>r. rev_id r = i) (rows @ [y]) = Some y"
  using assms by (induction rows) auto

lemma put_last_fresh:
  assumes "\<forall>r\<in>set rows. rev_id r \<noteq> rev_id x" and "rev_id y = rev_id x"
  shows "map (\<lambda>r. if rev_id r = rev_id x then x else r) (rows @ [y]) = rows @ [x]"
  using assms by (induction rows) auto

text \<open>The row that \<open>create\<close> builds before the INSERT gives it an id.\<close>

lemma create_cases:
  assumes "create e s d p descr g = (res, s1)"
  obtains (failed) err where "res = Inl err" "s1 = s"
    | (created) rv where "res = Inr rv" "s1 = s\<lparr>revisions := revisions s @ [rv]\<rparr>"
        "rev_id rv = next_rev_id s" "design_id rv = d"
        "revision_code rv = get_next_revision_code s d"
        "\<not> list_ex (\<lambda>r. design_id r = d \<and> revision_code r = get_next_revision_code s d)
             (revisions s)"
        "fcstd_path rv = None" "step_path rv = None" "dxf_path rv = None"
        "pdf_path rv = None" "bom_xlsx_path rv = None" "bom_pdf_path rv = None"
        "eco_status rv = ''draft''" "parameters_json rv = json_dumps e p"
        "generated_at rv = now e"
  using assms
  by (auto simp: create_def flush_revision_def Let_def split: if_splits)

lemma record_revision_cases:
  assumes "record_revision e req w s = (res, s1)"
  obtains (failed) err where "res = Inl err" "s1 = s"
    | (created) rv where "res = Inr rv" "s1 = s\<lparr>revisions := revisions s @ [rv]\<rparr>"
        "rev_id rv = next_rev_id s" "design_id rv = req_design_id req"
        "revision_code rv = get_next_revision_code s (req_design_id req)"
        "\<not> list_ex (\<lambda>r. design_id r = req_design_id req
                 \<and> revision_code r = get_next_revision_code s (req_design_id req))
             (revisions s)"
        "fcstd_path rv = None" "step_path rv = None" "dxf_path rv = None"
        "pdf_path rv = None" "bom_xlsx_path rv = None" "bom_pdf_path rv = None"
        "eco_status rv = ''draft''" "validation_passed rv = 1"
        "validation_warnings_json rv = (if w \<noteq> [] then Some (json_dumps_list e w) else None)"
proof -
  obtain r0 s0 where c: "create e s (req_design_id req) (req_parameters req)
      (req_description req) ''Fede'' = (r0, s0)"
    by (cases "create e s (req_design_id req) (req_parameters req) (req_description req) ''Fede''")
  from c show ?thesis
  proof (cases rule: create_cases)
    case (failed err)
    with c assms have "res = Inl err" "s1 = s"
      by (simp_all add: record_revision_def)
    then show ?thesis by (rule that(1))
  next
    case (created rv)
    define rv' where "rv' = rv\<lparr>validation_passed := 1,
        validation_warnings_json := (if w \<noteq> [] then Some (json_dumps_list e w) else None)\<rparr>"
    have fresh: "\<forall>r\<in>set (revisions s). rev_id r \<noteq> rev_id rv'"
    proof
      fix r assume "r \<in> set (revisions s)"
      then have "rev_id r < next_rev_id s" by (rule rev_id_lt_next)
      then show "rev_id r \<noteq> rev_id rv'" using created(3) by (simp add: rv'_def)
    qed
    have same: "rev_id rv = rev_id rv'" by (simp add: rv'_def)
    have put: "put_revision s0 rv' = s\<lparr>revisions := revisions s @ [rv']\<rparr>"
      using put_last_fresh [OF fresh same] created(2)
      by (simp add: put_revision_def)
    have "record_revision e req w s = (Inr rv', put_revision s0 rv')"
      using c created(1) by (simp add: record_revision_def rv'_def Let_def)
    with assms put have r: "res = Inr rv'" "s1 = s\<lparr>revisions := revisions s @ [rv']\<rparr>"
      by simp_all
    show ?thesis
      by (rule that(2) [OF r]) (simp_all add: rv'_def created)
  qed
qed


lemma run_engine_result:
  assumes run: "run_engine e req pc dn w rv s1 = (Inr resp, s')"
    and rows: "revisions s1 = rows @ [rv]"
    and fresh: "\<forall>r\<in>set rows. rev_id r \<noteq> rev_id rv"
    and call: "call = \<lparr>ec_piece_code = pc, ec_parameters = req_parameters req,
                        ec_output_dir = outputs_dir e @ [pc, safe_name_of dn, revision_code rv],
                        ec_revision_code = revision_code rv\<rparr>"
  shows "engine_calls s' = engine_calls s1 @ [call]"
    and "made_dirs s' = made_dirs s1 @ [ec_output_dir call]"
    and "designs s' = designs s1" and "piece_types s' = piece_types s1"
    and "resp_success resp = gr_success (engine e call)"
    and "resp_revision_id resp = Some (rev_id rv)"
    and "resp_revision_code resp = Some (revision_code rv)"
    and "resp_output_dir resp = Some (ec_output_dir call)"
    and "resp_warnings resp = w @ gr_warnings (engine e call)"
    and "resp_elapsed_seconds resp = gr_elapsed_seconds (engine e call)"
    and "\<not> gr_success (engine e call) \<Longrightarrow> revisions s' = rows @ [rv]"
    and "\<not> gr_success (engine e call) \<Longrightarrow>
         resp_errors resp =
           [case gr_error_message (engine e call) of
              None \<Rightarrow> ''Error desconocido en el motor CAD.''
            | Some m \<Rightarrow> if m = [] then ''Error desconocido en el motor CAD.'' else m]"
    and "gr_success (engine e call) \<Longrightarrow> resp_errors resp = []"
    and "gr_success (engine e call) \<Longrightarrow>
         revisions s' =
           rows @ [rv\<lparr>fcstd_path := map_option str_path (gr_fcstd_path (engine e call)),
                       step_path := map_option str_path (gr_step_path (engine e call)),
                       dxf_path := None, pdf_path := None, bom_xlsx_path := None,
                       bom_pdf_path := None\<rparr>]"
    and "mkdir_fault e (ec_output_dir call) = None"
    and "engine_fault e call = None"
proof -
  have call_eq: "\<lparr>ec_piece_code = pc, ec_parameters = req_parameters req,
                   ec_output_dir = outputs_dir e @ [pc, safe_name_of dn, revision_code rv],
                   ec_revision_code = revision_code rv\<rparr> = call"
    by (simp add: call)
  have dir_eq: "outputs_dir e @ [pc, safe_name_of dn, revision_code rv] = ec_output_dir call"
    by (simp add: call)
  have call_eq': "\<lparr>ec_piece_code = pc, ec_parameters = req_parameters req,
                    ec_output_dir = ec_output_dir call,
                    ec_revision_code = revision_code rv\<rparr> = call"
    by (simp add: call)
  show nomk: "mkdir_fault e (ec_output_dir call) = None"
    using run unfolding run_engine_def Let_def dir_eq
    by (cases "mkdir_fault e (ec_output_dir call)") simp_all
  show noeng: "engine_fault e call = None"
    using run nomk unfolding run_engine_def Let_def call_eq dir_eq call_eq'
    by (cases "engine_fault e call") simp_all
  define s2 where "s2 = s1\<lparr>made_dirs := made_dirs s1 @ [ec_output_dir call],
                            engine_calls := engine_calls s1 @ [call]\<rparr>"
  define paths where "paths =
     [''fcstd'' \<mapsto> map_option str_path (gr_fcstd_path (engine e call)),
      ''step'' \<mapsto> map_option str_path (gr_step_path (engine e call))]"
  define rv' where "rv' = rv\<lparr>fcstd_path := map_option str_path (gr_fcstd_path (engine e call)),
                       step_path := map_option str_path (gr_step_path (engine e call)),
                       dxf_path := None, pdf_path := None, bom_xlsx_path := None,
                       bom_pdf_path := None\<rparr>"
  have found: "get_by_id s2 (rev_id rv) = Some rv"
    using find_last_fresh [OF fresh refl] rows by (simp add: get_by_id_def s2_def)
  have pg: "paths_get paths ''fcstd'' = map_option str_path (gr_fcstd_path (engine e call))"
    "paths_get paths ''step'' = map_option str_path (gr_step_path (engine e call))"
    "paths_get paths ''dxf'' = None" "paths_get paths ''pdf'' = None"
    "paths_get paths ''bom_xlsx'' = None" "paths_get paths ''bom_pdf'' = None"
    by (simp_all add: paths_get_def paths_def)
  have upd: "update_output_paths s2 (rev_id rv) paths = (Some rv', put_revision s2 rv')"
    unfolding update_output_paths_def found by (simp add: pg rv'_def Let_def)
  have same: "rev_id rv = rev_id rv'" by (simp add: rv'_def)
  have fresh': "\<forall>r\<in>set rows. rev_id r \<noteq> rev_id rv'" using fresh same by simp
  have put: "revisions (put_revision s2 rv') = rows @ [rv']"
    using put_last_fresh [OF fresh' same] rows by (simp add: put_revision_def s2_def)
  have s': "s' = (if gr_success (engine e call) then put_revision s2 rv' else s2)"
    using run upd nomk noeng unfolding run_engine_def Let_def call_eq dir_eq call_eq'
    by (auto simp: s2_def paths_def split: if_splits)
  have resp: "resp =
     (if gr_success (engine e call)
      then \<lparr>resp_success = True, resp_revision_id = Some (rev_id rv),
             resp_revision_code = Some (revision_code rv),
             resp_output_dir = Some (ec_output_dir call),
             resp_errors = [], resp_warnings = w @ gr_warnings (engine e call),
             resp_elapsed_seconds = gr_elapsed_seconds (engine e call)\<rparr>
      else \<lparr>resp_success = False, resp_revision_id = Some (rev_id rv),
             resp_revision_code = Some (revision_code rv),
             resp_output_dir = Some (ec_output_dir call),
             resp_errors =
               [case gr_error_message (engine e call) of
                  None \<Rightarrow> ''Error desconocido en el motor CAD.''
                | Some m \<Rightarrow> if m = [] then ''Error desconocido en el motor CAD.'' else m],
             resp_warnings = w @ gr_warnings (engine e call),
             resp_elapsed_seconds = gr_elapsed_seconds (engine e call)\<rparr>)"
    using run nomk noeng unfolding run_engine_def Let_def call_eq dir_eq call_eq'
    by (auto split: if_splits)
  show "engine_calls s' = engine_calls s1 @ [call]"
    by (simp add: s' put_revision_frame s2_def)
  show "made_dirs s' = made_dirs s1 @ [ec_output_dir call]"
    by (simp add: s' put_revision_frame s2_def)
  show "designs s' = designs s1" by (simp add: s' put_revision_frame s2_def)
  show "piece_types s' = piece_types s1" by (simp add: s' put_revision_frame s2_def)
  show "resp_success resp = gr_success (engine e call)" by (simp add: resp)
  show "resp_revision_id resp = Some (rev_id rv)" by (simp add: resp)
  show "resp_revision_code resp = Some (revision_code rv)" by (simp add: resp)
  show "resp_output_dir resp = Some (ec_output_dir call)" by (simp add: resp)
  show "resp_warnings resp = w @ gr_warnings (engine e call)" by (simp add: resp)
  show "resp_elapsed_seconds resp = gr_elapsed_seconds (engine e call)" by (simp add: resp)
  show "\<not> gr_success (engine e call) \<Longrightarrow> revisions s' = rows @ [rv]"
    using rows by (simp add: s' s2_def)
  show "\<not> gr_success (engine e call) \<Longrightarrow>
         resp_errors resp =
           [case gr_error_message (engine e call) of
              None \<Rightarrow> ''Error desconocido en el motor CAD.''
            | Some m \<Rightarrow> if m = [] then ''Error desconocido en el motor CAD.'' else m]"
    by (simp add: resp)
  show "gr_success (engine e call) \<Longrightarrow> resp_errors resp = []" by (simp add: resp)
  show "gr_success (engine e call) \<Longrightarrow>
         revisions s' =
           rows @ [rv\<lparr>fcstd_path := map_option str_path (gr_fcstd_path (engine e call)),
                       step_path := map_option str_path (gr_step_path (engine e call)),
                       dxf_path := None, pdf_path := None, bom_xlsx_path := None,
                       bom_pdf_path := None\<rparr>]"
    using put by (simp add: s' rv'_def)
qed

lemma run_engine_raised:
  assumes run: "run_engine e req pc dn w rv s1 = (Inl err, s')"
  shows "revisions s' = revisions s1" and "designs s' = designs s1"
    and "piece_types s' = piece_types s1"
    and "mkdir_fault e (outputs_dir e @ [pc, safe_name_of dn, revision_code rv]) = Some err
         \<or> engine_fault e \<lparr>ec_piece_code = pc, ec_parameters = req_parameters req,
               ec_output_dir = outputs_dir e @ [pc, safe_name_of dn, revision_code rv],
               ec_revision_code = revision_code rv\<rparr> = Some err"
  using run unfolding run_engine_def Let_def
  by (auto split: option.splits if_splits)


lemma recorded_failure: "\<not> recorded (Inr (failure errs warns))"
  by (simp add: recorded_def failure_def)

lemma recorded_Inl: "\<not> recorded (Inl err)"
  by (simp add: recorded_def)

lemma generate_invalid:
  assumes "get_design s (req_design_id req) = Some design"
    and "get_piece_type s (d_piece_type_id design) = Some pt"
    and "validate (evaluator e) (req_parameters req) (catalog_rules e (pt_code pt)) = Inr v"
    and "\<not> is_valid v"
  shows "generate e req s =
     (Inr (failure (map message (errors v)) (map message (warnings v))), s)"
  using assms by (simp add: generate_def Let_def)

lemma generate_cases:
  assumes gen: "generate e req s = (r, s')"
  obtains (unchanged) "s' = s" "\<not> recorded r"
    | (recorded) design pt v rv where
        "get_design s (req_design_id req) = Some design"
        "get_piece_type s (d_piece_type_id design) = Some pt"
        "validate (evaluator e) (req_parameters req) (catalog_rules e (pt_code pt)) = Inr v"
        "is_valid v"
        "record_revision e req (map message (warnings v)) s
           = (Inr rv, s\<lparr>revisions := revisions s @ [rv]\<rparr>)"
        "run_engine e req (pt_code pt) (d_name design) (map message (warnings v)) rv
           (s\<lparr>revisions := revisions s @ [rv]\<rparr>) = (r, s')"
proof (cases "get_design s (req_design_id req)")
  case None
  with gen have "s' = s" "r = Inr (failure [''Dise'' @ [CHR 0xF1] @ ''o no encontrado.''] [])"
    by (simp_all add: generate_def)
  then show ?thesis using recorded_failure by (intro unchanged) simp_all
next
  case (Some design)
  note d = this
  show ?thesis
  proof (cases "get_piece_type s (d_piece_type_id design)")
    case None
    with gen d have "s' = s" "r = Inr (failure [''Tipo de pieza no encontrado.''] [])"
      by (simp_all add: generate_def)
    then show ?thesis using recorded_failure by (intro unchanged) simp_all
  next
    case (Some pt)
    note p = this
    show ?thesis
    proof (cases "validate (evaluator e) (req_parameters req) (catalog_rules e (pt_code pt))")
      case (Inl err)
      with gen d p have "s' = s" "r = Inl err"
        by (simp_all add: generate_def Let_def)
      then show ?thesis using recorded_Inl by (intro unchanged) simp_all
    next
      case (Inr v)
      note v = this
      show ?thesis
      proof (cases "is_valid v")
        case False
        from gen generate_invalid [OF d p v False]
        have "s' = s" "r = Inr (failure (map message (errors v)) (map message (warnings v)))"
          by simp_all
        then show ?thesis using recorded_failure by (intro unchanged) simp_all
      next
        case True
        obtain res s1 where rr: "record_revision e req (map message (warnings v)) s = (res, s1)"
          by (cases "record_revision e req (map message (warnings v)) s")
        from rr show ?thesis
        proof (cases rule: record_revision_cases)
          case (failed err)
          with gen d p v True rr have "s' = s" "r = Inl err"
            by (simp_all add: generate_def Let_def)
          then show ?thesis using recorded_Inl by (intro unchanged) simp_all
        next
          case (created rv)
          from gen d p v True rr created(1,2)
          have re: "run_engine e req (pt_code pt) (d_name design)
              (map message (warnings v)) rv (s\<lparr>revisions := revisions s @ [rv]\<rparr>) = (r, s')"
            by (simp add: generate_def Let_def)
          with rr created(1,2) show ?thesis
            by (intro recorded [OF d p v True]) simp_all
        qed
      qed
    qed
  qed
qed


lemma generate_outcomes:
  assumes gen: "generate e req s = (r, s')"
  obtains (unchanged) "s' = s" "\<not> recorded r"
    | (recorded) design pt v rv0 rv resp call where
        "get_design s (req_design_id req) = Some design"
        "get_piece_type s (d_piece_type_id design) = Some pt"
        "validate (evaluator e) (req_parameters req) (catalog_rules e (pt_code pt)) = Inr v"
        "is_valid v" "r = Inr resp" "recorded r"
        "call = \<lparr>ec_piece_code = pt_code pt, ec_parameters = req_parameters req,
                  ec_output_dir = outputs_dir e @ [pt_code pt, safe_name_of (d_name design),
                                                  revision_code rv],
                  ec_revision_code = revision_code rv\<rparr>"
        "engine_calls s' = engine_calls s @ [call]"
        "made_dirs s' = made_dirs s @ [ec_output_dir call]"
        "designs s' = designs s" "piece_types s' = piece_types s"
        "revisions s' = revisions s @ [rv]"
        "rev_id rv = next_rev_id s" "design_id rv = req_design_id req"
        "revision_code rv = get_next_revision_code s (req_design_id req)"
        "\<not> list_ex (\<lambda>x. design_id x = req_design_id req
                 \<and> revision_code x = get_next_revision_code s (req_design_id req))
             (revisions s)"
        "validation_passed rv = 1" "eco_status rv = ''draft''"
        "rv = (if gr_success (engine e call)
               then rv0\<lparr>fcstd_path := map_option str_path (gr_fcstd_path (engine e call)),
                         step_path := map_option str_path (gr_step_path (engine e call)),
                         dxf_path := None, pdf_path := None, bom_xlsx_path := None,
                         bom_pdf_path := None\<rparr>
               else rv0)"
        "fcstd_path rv0 = None" "step_path rv0 = None" "dxf_path rv0 = None"
        "pdf_path rv0 = None" "bom_xlsx_path rv0 = None" "bom_pdf_path rv0 = None"
        "resp_success resp = gr_success (engine e call)"
        "resp_revision_id resp = Some (rev_id rv)"
        "resp_revision_code resp = Some (revision_code rv)"
        "resp_output_dir resp = Some (ec_output_dir call)"
        "resp_warnings resp = map message (warnings v) @ gr_warnings (engine e call)"
        "resp_errors resp =
           (if gr_success (engine e call) then []
            else [case gr_error_message (engine e call) of
                    None \<Rightarrow> ''Error desconocido en el motor CAD.''
                  | Some m \<Rightarrow> if m = [] then ''Error desconocido en el motor CAD.'' else m])"
    | (raised) design pt v rv err where
        "get_design s (req_design_id req) = Some design"
        "get_piece_type s (d_piece_type_id design) = Some pt"
        "validate (evaluator e) (req_parameters req) (catalog_rules e (pt_code pt)) = Inr v"
        "is_valid v" "r = Inl err"
        "designs s' = designs s" "piece_types s' = piece_types s"
        "revisions s' = revisions s @ [rv]"
        "rev_id rv = next_rev_id s" "design_id rv = req_design_id req"
        "revision_code rv = get_next_revision_code s (req_design_id req)"
        "\<not> list_ex (\<lambda>x. design_id x = req_design_id req
                 \<and> revision_code x = get_next_revision_code s (req_design_id req))
             (revisions s)"
  using gen
proof (cases rule: generate_cases)
  case unchanged
  then show ?thesis by (rule that(1))
next
  case (recorded design pt v rv0)
  from recorded(5) have facts:
        "rev_id rv0 = next_rev_id s" "design_id rv0 = req_design_id req"
        "revision_code rv0 = get_next_revision_code s (req_design_id req)"
        "\<not> list_ex (\<lambda>x. design_id x = req_design_id req
                 \<and> revision_code x = get_next_revision_code s (req_design_id req))
             (revisions s)"
        "fcstd_path rv0 = None" "step_path rv0 = None" "dxf_path rv0 = None"
        "pdf_path rv0 = None" "bom_xlsx_path rv0 = None" "bom_pdf_path rv0 = None"
        "eco_status rv0 = ''draft''" "validation_passed rv0 = 1"
    by (cases rule: record_revision_cases; simp)+
  show ?thesis
  proof (cases r)
    case (Inl err)
    note rr = run_engine_raised [OF recorded(6) [unfolded Inl]]
    show ?thesis
      apply (rule that(3) [of design pt v err rv0])
      apply (rule recorded(1))
      apply (rule recorded(2))
      apply (rule recorded(3))
      apply (rule recorded(4))
      apply (rule Inl)
      using rr(2) apply simp
      using rr(3) apply simp
      using rr(1) apply simp
      apply (rule facts(1))
      apply (rule facts(2))
      apply (rule facts(3))
      apply (rule facts(4))
      done
  next
    case (Inr resp)
    note run = recorded(6) [unfolded Inr]
    note rInr = Inr
  define call where "call = \<lparr>ec_piece_code = pt_code pt, ec_parameters = req_parameters req,
                  ec_output_dir = outputs_dir e @ [pt_code pt, safe_name_of (d_name design),
                                                  revision_code rv0],
                  ec_revision_code = revision_code rv0\<rparr>"
  define rv where "rv = (if gr_success (engine e call)
               then rv0\<lparr>fcstd_path := map_option str_path (gr_fcstd_path (engine e call)),
                         step_path := map_option str_path (gr_step_path (engine e call)),
                         dxf_path := None, pdf_path := None, bom_xlsx_path := None,
                         bom_pdf_path := None\<rparr>
               else rv0)"
  have fresh: "\<forall>x\<in>set (revisions s). rev_id x \<noteq> rev_id rv0"
  proof
    fix x assume "x \<in> set (revisions s)"
    then have "rev_id x < next_rev_id s" by (rule rev_id_lt_next)
    then show "rev_id x \<noteq> rev_id rv0" using facts(1) by simp
  qed
  have rows: "revisions (s\<lparr>revisions := revisions s @ [rv0]\<rparr>) = revisions s @ [rv0]"
    by simp
  note re = run_engine_result [OF run rows fresh call_def]
  have same: "revision_code rv = revision_code rv0" "rev_id rv = rev_id rv0"
    "design_id rv = design_id rv0" "validation_passed rv = validation_passed rv0"
    "eco_status rv = eco_status rv0"
    by (simp_all add: rv_def)
  have revs: "revisions s' = revisions s @ [rv]"
    using re(11) re(14) by (cases "gr_success (engine e call)") (simp_all add: rv_def)
  have errs: "resp_errors resp =
           (if gr_success (engine e call) then []
            else [case gr_error_message (engine e call) of
                    None \<Rightarrow> ''Error desconocido en el motor CAD.''
                  | Some m \<Rightarrow> if m = [] then ''Error desconocido en el motor CAD.'' else m])"
    using re(12) re(13) by (cases "gr_success (engine e call)") simp_all
  have rec: "recorded r"
    using rInr re(6) by (simp add: recorded_def)
  have call': "call = \<lparr>ec_piece_code = pt_code pt, ec_parameters = req_parameters req,
                  ec_output_dir = outputs_dir e @ [pt_code pt, safe_name_of (d_name design),
                                                  revision_code rv],
                  ec_revision_code = revision_code rv\<rparr>"
    by (simp add: call_def same)
  show ?thesis
    apply (rule that(2) [of design pt v resp call rv rv0])
    apply (rule recorded(1))
    apply (rule recorded(2))
    apply (rule recorded(3))
    apply (rule recorded(4))
    apply (rule rInr)
    apply (rule rec)
    apply (rule call')
    using re(1) apply simp
    using re(2) apply simp
    using re(3) apply simp
    using re(4) apply simp
    apply (rule revs)
    apply (simp add: same facts)
    apply (simp add: same facts)
    apply (simp add: same facts)
    apply (rule facts(4))
    apply (simp add: same facts)
    apply (simp add: same facts)
    apply (rule rv_def)
    apply (rule facts(5))
    apply (rule facts(6))
    apply (rule facts(7))
    apply (rule facts(8))
    apply (rule facts(9))
    apply (rule facts(10))
    apply (rule re(5))
    using re(6) apply (simp add: same)
    using re(7) apply (simp add: same)
    apply (rule re(8))
    apply (rule re(9))
    apply (rule errs)
    done
  qed
qed


lemma ex_validate_ok:
  "validate ex_eval [(''espesor'', 12), (''largo'', 300), (''ancho'', 200)] ex_rules
     = Inr \<lparr>is_valid = True, messages = []\<rparr>"
  by (simp add: ex_validation_defs)

lemma ex_validate_bad:
  "validate ex_eval [(''espesor'', 2), (''largo'', 3000), (''ancho'', 200)] ex_rules
     = Inr \<lparr>is_valid = False,
            messages = [\<lparr>rule_id = ''VR-BP-01'', severity = ERROR,
                         message = ''Espesor minimo 4 mm.''\<rparr>,
                        \<lparr>rule_id = ''VR-BP-02'', severity = WARNING,
                         message = ''Relacion largo/ancho supera 10:1.''\<rparr>]\<rparr>"
  by (simp add: ex_validation_defs)

lemma ex_generate_failed:
  "generate (ex_env ''1'' ex_failed)
     (ex_request [(''espesor'', 12), (''largo'', 300), (''ancho'', 200)]) (ex_world [])
   = (Inr \<lparr>resp_success = False, resp_revision_id = Some 1, resp_revision_code = Some ''A'',
           resp_output_dir = Some [''outputs'', ''base_plate'', ''Placa_Test'', ''A''],
           resp_errors = [''Fallo simulado del motor CAD.''], resp_warnings = [],
           resp_elapsed_seconds = 0\<rparr>,
      (ex_world [(ex_revision 1 ''A'' ''1'')\<lparr>fcstd_path := None, dxf_path := None\<rparr>])
        \<lparr>engine_calls :=
           [\<lparr>ec_piece_code = ''base_plate'',
             ec_parameters = [(''espesor'', 12), (''largo'', 300), (''ancho'', 200)],
             ec_output_dir = [''outputs'', ''base_plate'', ''Placa_Test'', ''A''],
             ec_revision_code = ''A''\<rparr>],
         made_dirs := [[''outputs'', ''base_plate'', ''Placa_Test'', ''A'']]\<rparr>)"
  unfolding generate_def
  by (simp add: ex_validate_ok Let_def warnings_def errors_def record_revision_def
      run_engine_def create_def flush_revision_def get_next_revision_code_def
      get_by_design_def next_rev_id_def put_revision_def get_design_def get_piece_type_def
      safe_name_of_def word_char_def ex_env_def ex_request_def ex_world_def ex_design_def
      ex_piece_def ex_revision_def ex_failed_def)


section \<open>Claims about the orchestrator\<close>

text \<open>
  C2. When the design and its piece type resolve and validation of the request's
  parameters records at least one message of severity error, \<open>generate\<close> returns a failure
  response whose errors are the error messages and whose warnings are the warning
  messages, in order; the world is exactly as before, so no revision was created and the
  engine was not called.
\<close>

theorem abort_on_invalid_parameters:
  "get_design s (req_design_id req) = Some design
   \<and> get_piece_type s (d_piece_type_id design) = Some pt
   \<and> validate (evaluator e) (req_parameters req) (catalog_rules e (pt_code pt)) = Inr v
   \<and> errors v \<noteq> []
   \<longrightarrow> (\<exists>resp. generate e req s = (Inr resp, s)
          \<and> \<not> resp_success resp
          \<and> resp_errors resp = map message (errors v)
          \<and> resp_warnings resp = map message (warnings v)
          \<and> resp_revision_id resp = None \<and> resp_revision_code resp = None
          \<and> revisions (snd (generate e req s)) = revisions s
          \<and> engine_calls (snd (generate e req s)) = engine_calls s)"
proof
  assume a: "get_design s (req_design_id req) = Some design
   \<and> get_piece_type s (d_piece_type_id design) = Some pt
   \<and> validate (evaluator e) (req_parameters req) (catalog_rules e (pt_code pt)) = Inr v
   \<and> errors v \<noteq> []"
  then have "\<not> is_valid v" using validate_is_valid [of "evaluator e" "req_parameters req"
      "catalog_rules e (pt_code pt)" v] by simp
  with a have "generate e req s =
     (Inr (failure (map message (errors v)) (map message (warnings v))), s)"
    using generate_invalid [of s req design pt e v] by simp
  then show "\<exists>resp. generate e req s = (Inr resp, s)
          \<and> \<not> resp_success resp
          \<and> resp_errors resp = map message (errors v)
          \<and> resp_warnings resp = map message (warnings v)
          \<and> resp_revision_id resp = None \<and> resp_revision_code resp = None
          \<and> revisions (snd (generate e req s)) = revisions s
          \<and> engine_calls (snd (generate e req s)) = engine_calls s"
    by (simp add: failure_def)
qed

theorem abort_on_invalid_parameters_witness:
  "get_design (ex_world [ex_revision 1 ''A'' ''0'']) 1 = Some ex_design
   \<and> get_piece_type (ex_world [ex_revision 1 ''A'' ''0'']) 1 = Some ex_piece
   \<and> validate ex_eval [(''espesor'', 2), (''largo'', 3000), (''ancho'', 200)] ex_rules
     = Inr \<lparr>is_valid = False,
            messages = [\<lparr>rule_id = ''VR-BP-01'', severity = ERROR,
                         message = ''Espesor minimo 4 mm.''\<rparr>,
                        \<lparr>rule_id = ''VR-BP-02'', severity = WARNING,
                         message = ''Relacion largo/ancho supera 10:1.''\<rparr>]\<rparr>
   \<and> generate (ex_env ''1'' ex_ok)
        (ex_request [(''espesor'', 2), (''largo'', 3000), (''ancho'', 200)])
        (ex_world [ex_revision 1 ''A'' ''0''])
      = (Inr \<lparr>resp_success = False, resp_revision_id = None, resp_revision_code = None,
              resp_output_dir = None, resp_errors = [''Espesor minimo 4 mm.''],
              resp_warnings = [''Relacion largo/ancho supera 10:1.''],
              resp_elapsed_seconds = 0\<rparr>,
         ex_world [ex_revision 1 ''A'' ''0''])"
proof -
  let ?s = "ex_world [ex_revision 1 ''A'' ''0'']"
  let ?req = "ex_request [(''espesor'', 2), (''largo'', 3000), (''ancho'', 200)]"
  let ?e = "ex_env ''1'' ex_ok"
  let ?v = "\<lparr>is_valid = False,
            messages = [\<lparr>rule_id = ''VR-BP-01'', severity = ERROR,
                         message = ''Espesor minimo 4 mm.''\<rparr>,
                        \<lparr>rule_id = ''VR-BP-02'', severity = WARNING,
                         message = ''Relacion largo/ancho supera 10:1.''\<rparr>]\<rparr>"
  have d: "get_design ?s (req_design_id ?req) = Some ex_design"
    by (simp add: get_design_def ex_world_def ex_request_def ex_design_def)
  have p: "get_piece_type ?s (d_piece_type_id ex_design) = Some ex_piece"
    by (simp add: get_piece_type_def ex_world_def ex_design_def ex_piece_def)
  have v: "validate (evaluator ?e) (req_parameters ?req) (catalog_rules ?e (pt_code ex_piece))
             = Inr ?v"
    using ex_validate_bad by (simp add: ex_env_def ex_request_def)
  have n: "errors ?v \<noteq> []" by (simp add: errors_def)
  have i: "req_design_id ?req = 1" "d_piece_type_id ex_design = 1"
    by (simp_all add: ex_request_def ex_design_def)
  have nv: "\<not> is_valid ?v" by simp
  have g: "generate ?e ?req ?s =
      (Inr \<lparr>resp_success = False, resp_revision_id = None, resp_revision_code = None,
              resp_output_dir = None, resp_errors = [''Espesor minimo 4 mm.''],
              resp_warnings = [''Relacion largo/ancho supera 10:1.''],
              resp_elapsed_seconds = 0\<rparr>, ?s)"
    using generate_invalid [OF d p v nv] by (simp add: failure_def errors_def warnings_def)
  show ?thesis
    using abort_on_invalid_parameters [of ?s ?req ex_design ex_piece ?e ?v] d p v n i g
      ex_validate_bad
    by simp
qed

text \<open>
  C6. When \<open>generate\<close> returned a response after calling the engine, and the engine's answer
  to that call reported failure, then the parameters had passed validation, exactly one
  revision was added to the table for the request's design, its six output paths are
  absent and its \<open>validation_passed\<close> is 1; the response has \<open>success\<close> false, carries that
  revision's id and code and the output directory given to the engine, and its only
  error is the engine's error message, or the text for an unknown engine error when the
  engine gave no message or an empty one.
\<close>

theorem revision_kept_when_engine_fails:
  "generate e req s = (Inr resp, s')
   \<and> engine_calls s' = engine_calls s @ [call]
   \<and> \<not> gr_success (engine e call)
   \<longrightarrow> (\<exists>rv design pt v.
          get_design s (req_design_id req) = Some design
        \<and> get_piece_type s (d_piece_type_id design) = Some pt
        \<and> validate (evaluator e) (req_parameters req) (catalog_rules e (pt_code pt)) = Inr v
        \<and> is_valid v
        \<and> revisions s' = revisions s @ [rv]
        \<and> get_by_id s' (rev_id rv) = Some rv
        \<and> design_id rv = req_design_id req
        \<and> fcstd_path rv = None \<and> step_path rv = None \<and> dxf_path rv = None
        \<and> pdf_path rv = None \<and> bom_xlsx_path rv = None \<and> bom_pdf_path rv = None
        \<and> validation_passed rv = 1
        \<and> \<not> resp_success resp
        \<and> resp_revision_id resp = Some (rev_id rv)
        \<and> resp_revision_code resp = Some (revision_code rv)
        \<and> resp_output_dir resp = Some (ec_output_dir call)
        \<and> resp_errors resp =
             [case gr_error_message (engine e call) of
                None \<Rightarrow> ''Error desconocido en el motor CAD.''
              | Some m \<Rightarrow> if m = [] then ''Error desconocido en el motor CAD.'' else m])"
proof
  assume a: "generate e req s = (Inr resp, s')
   \<and> engine_calls s' = engine_calls s @ [call]
   \<and> \<not> gr_success (engine e call)"
  then have gen: "generate e req s = (Inr resp, s')" by simp
  from gen show "\<exists>rv design pt v.
          get_design s (req_design_id req) = Some design
        \<and> get_piece_type s (d_piece_type_id design) = Some pt
        \<and> validate (evaluator e) (req_parameters req) (catalog_rules e (pt_code pt)) = Inr v
        \<and> is_valid v
        \<and> revisions s' = revisions s @ [rv]
        \<and> get_by_id s' (rev_id rv) = Some rv
        \<and> design_id rv = req_design_id req
        \<and> fcstd_path rv = None \<and> step_path rv = None \<and> dxf_path rv = None
        \<and> pdf_path rv = None \<and> bom_xlsx_path rv = None \<and> bom_pdf_path rv = None
        \<and> validation_passed rv = 1
        \<and> \<not> resp_success resp
        \<and> resp_revision_id resp = Some (rev_id rv)
        \<and> resp_revision_code resp = Some (revision_code rv)
        \<and> resp_output_dir resp = Some (ec_output_dir call)
        \<and> resp_errors resp =
             [case gr_error_message (engine e call) of
                None \<Rightarrow> ''Error desconocido en el motor CAD.''
              | Some m \<Rightarrow> if m = [] then ''Error desconocido en el motor CAD.'' else m]"
  proof (cases rule: generate_outcomes)
    case unchanged
    with a show ?thesis by simp
  next
    case (recorded design pt v rv0 rv resp' call')
    have c: "call' = call" using a recorded(8) by simp
    have r: "resp' = resp" using recorded(5) by simp
    have fail: "\<not> gr_success (engine e call')" using a c by simp
    then have rv: "rv = rv0" using recorded(19) by simp
    have fresh: "\<forall>x\<in>set (revisions s). rev_id x \<noteq> rev_id rv"
    proof
      fix x assume "x \<in> set (revisions s)"
      then have "rev_id x < next_rev_id s" by (rule rev_id_lt_next)
      then show "rev_id x \<noteq> rev_id rv" using recorded(13) by simp
    qed
    have g: "get_by_id s' (rev_id rv) = Some rv"
      using find_last_fresh [OF fresh refl] recorded(12) by (simp add: get_by_id_def)
    show ?thesis
      apply (rule exI [of _ rv])
      apply (rule exI [of _ design])
      apply (rule exI [of _ pt])
      apply (rule exI [of _ v])
      using recorded(1-4) recorded(12) g recorded(14) recorded(17) recorded(20-25)
        recorded(26-29) recorded(31) fail
      apply (simp add: rv c r)
      done
  next
    case (raised design pt v rv err)
    then show ?thesis by simp
  qed
qed

theorem revision_kept_when_engine_fails_witness:
  "generate (ex_env ''1'' ex_failed)
     (ex_request [(''espesor'', 12), (''largo'', 300), (''ancho'', 200)]) (ex_world [])
   = (Inr \<lparr>resp_success = False, resp_revision_id = Some 1, resp_revision_code = Some ''A'',
           resp_output_dir = Some [''outputs'', ''base_plate'', ''Placa_Test'', ''A''],
           resp_errors = [''Fallo simulado del motor CAD.''], resp_warnings = [],
           resp_elapsed_seconds = 0\<rparr>,
      (ex_world [(ex_revision 1 ''A'' ''1'')\<lparr>fcstd_path := None, dxf_path := None\<rparr>])
        \<lparr>engine_calls :=
           [\<lparr>ec_piece_code = ''base_plate'',
             ec_parameters = [(''espesor'', 12), (''largo'', 300), (''ancho'', 200)],
             ec_output_dir = [''outputs'', ''base_plate'', ''Placa_Test'', ''A''],
             ec_revision_code = ''A''\<rparr>],
         made_dirs := [[''outputs'', ''base_plate'', ''Placa_Test'', ''A'']]\<rparr>)
   \<and> engine_calls (ex_world []) = ([] :: ex_params engine_call list)
   \<and> gr_success (engine (ex_env ''1'' ex_failed)
          \<lparr>ec_piece_code = ''base_plate'',
            ec_parameters = [(''espesor'', 12), (''largo'', 300), (''ancho'', 200)],
            ec_output_dir = [''outputs'', ''base_plate'', ''Placa_Test'', ''A''],
            ec_revision_code = ''A''\<rparr>) = False
   \<and> validation_passed ((ex_revision 1 ''A'' ''1'')\<lparr>fcstd_path := None, dxf_path := None\<rparr>) = 1
   \<and> step_path ((ex_revision 1 ''A'' ''1'')\<lparr>fcstd_path := None, dxf_path := None\<rparr>) = None"
proof -
  let ?call = "\<lparr>ec_piece_code = ''base_plate'',
            ec_parameters = [(''espesor'', 12), (''largo'', 300), (''ancho'', 200)],
            ec_output_dir = [''outputs'', ''base_plate'', ''Placa_Test'', ''A''],
            ec_revision_code = ''A''\<rparr> :: ex_params engine_call"
  let ?resp = "\<lparr>resp_success = False, resp_revision_id = Some 1, resp_revision_code = Some ''A'',
           resp_output_dir = Some [''outputs'', ''base_plate'', ''Placa_Test'', ''A''],
           resp_errors = [''Fallo simulado del motor CAD.''], resp_warnings = [],
           resp_elapsed_seconds = 0\<rparr>"
  let ?s' = "(ex_world [(ex_revision 1 ''A'' ''1'')\<lparr>fcstd_path := None, dxf_path := None\<rparr>])
        \<lparr>engine_calls := [?call],
         made_dirs := [[''outputs'', ''base_plate'', ''Placa_Test'', ''A'']]\<rparr>"
  have l: "engine_calls ?s' = engine_calls (ex_world [] :: ex_params world) @ [?call]"
    by (simp add: ex_world_def)
  have f: "\<not> gr_success (engine (ex_env ''1'' ex_failed) ?call)"
    by (simp add: ex_env_def ex_failed_def)
  have e: "engine_calls (ex_world []) = ([] :: ex_params engine_call list)"
    by (simp add: ex_world_def)
  have p: "validation_passed ((ex_revision 1 ''A'' ''1'')\<lparr>fcstd_path := None, dxf_path := None\<rparr>) = 1"
    "step_path ((ex_revision 1 ''A'' ''1'')\<lparr>fcstd_path := None, dxf_path := None\<rparr>) = None"
    by (simp_all add: ex_revision_def)
  show ?thesis
    using revision_kept_when_engine_fails
        [of "ex_env ''1'' ex_failed"
            "ex_request [(''espesor'', 12), (''largo'', 300), (''ancho'', 200)]"
            "ex_world []" ?resp ?s' ?call]
      ex_generate_failed l f e p
    by simp
qed


section \<open>Codes over many generations\<close>

text \<open>
  What holds of every sequence of invocations, with any clock, catalog, evaluator and
  engine: the codes stored for a design, in row order, are an initial segment of the
  sequence A, B, ..., Z, AA, AB, ..., so that no code occurs twice for a design. An
  invocation adds the next term or nothing.
\<close>

lemma set_codes_of:
  "set (codes_of s d) = {revision_code x | x. x \<in> set (revisions s) \<and> design_id x = d}"
  by (auto simp: codes_of_def)

lemma generate_codes:
  assumes gen: "generate e req s = (r, s')"
  shows "codes_of s' d = codes_of s d
         \<or> (codes_of s' d = codes_of s d @ [get_next_revision_code s d]
            \<and> get_next_revision_code s d \<notin> set (codes_of s d))"
  using gen
proof (cases rule: generate_outcomes)
  case unchanged
  then show ?thesis by simp
next
  case (recorded design pt v rv0 rv resp call)
  show ?thesis
  proof (cases "req_design_id req = d")
    case True
    have "get_next_revision_code s d \<notin> set (codes_of s d)"
      using recorded(16) True by (auto simp: set_codes_of list_ex_iff)
    moreover have "codes_of s' d = codes_of s d @ [get_next_revision_code s d]"
      using recorded(12) recorded(14) recorded(15) True by (simp add: codes_of_def)
    ultimately show ?thesis by simp
  next
    case False
    then show ?thesis using recorded(12) recorded(14) by (simp add: codes_of_def)
  qed
next
  case (raised design pt v rv err)
  show ?thesis
  proof (cases "req_design_id req = d")
    case True
    have "get_next_revision_code s d \<notin> set (codes_of s d)"
      using raised(12) True by (auto simp: set_codes_of list_ex_iff)
    moreover have "codes_of s' d = codes_of s d @ [get_next_revision_code s d]"
      using raised(8) raised(10) raised(11) True by (simp add: codes_of_def)
    ultimately show ?thesis by simp
  next
    case False
    then show ?thesis using raised(8) raised(10) by (simp add: codes_of_def)
  qed
qed

lemma next_code_in_sequence:
  assumes "codes_of s d = map nth_code [0..<k]"
  shows "\<exists>j\<le>k. get_next_revision_code s d = nth_code j"
proof (cases "get_by_design s d = []")
  case True
  then have "get_next_revision_code s d = nth_code 0"
    by (simp add: get_next_revision_code_def nth_code_0)
  then show ?thesis by blast
next
  case False
  then have "last (get_by_design s d) \<in> set (get_by_design s d)" by simp
  then have "last (get_by_design s d) \<in> set (filter (\<lambda>r. design_id r = d) (revisions s))"
    by (simp add: get_by_design_def)
  then have "revision_code (last (get_by_design s d)) \<in> set (codes_of s d)"
    by (auto simp: set_codes_of)
  then obtain i where i: "i < k" "revision_code (last (get_by_design s d)) = nth_code i"
    unfolding assms by auto
  have "get_next_revision_code s d = increment_revision_code (nth_code i)"
    using False i(2) by (simp add: get_next_revision_code_def Let_def)
  then have "get_next_revision_code s d = nth_code (Suc i)"
    by (simp add: increment_nth_code)
  moreover have "Suc i \<le> k" using i(1) by simp
  ultimately show ?thesis by blast
qed

lemma generate_keeps_sequence:
  assumes inv: "codes_of s d = map nth_code [0..<k]"
    and gen: "generate e req s = (r, s')"
  shows "codes_of s' d = map nth_code [0..<k] \<or> codes_of s' d = map nth_code [0..<Suc k]"
proof (cases "codes_of s' d = codes_of s d")
  case True
  then show ?thesis using inv by simp
next
  case False
  with generate_codes [OF gen, of d]
  have app: "codes_of s' d = codes_of s d @ [get_next_revision_code s d]"
    and new: "get_next_revision_code s d \<notin> set (codes_of s d)"
    by simp_all
  from next_code_in_sequence [OF inv]
  obtain j where j: "j \<le> k" "get_next_revision_code s d = nth_code j" by blast
  have "nth_code j \<notin> set (map nth_code [0..<k])"
    using new j(2) inv by simp
  then have "\<not> j < k" by auto
  with j(1) have "j = k" by simp
  then show ?thesis using app inv j(2) by simp
qed

lemma run_keeps_sequence:
  assumes "codes_of s d = map nth_code [0..<k]" and "run calls s = (rs, s')"
  shows "\<exists>n. k \<le> n \<and> n \<le> k + length calls \<and> codes_of s' d = map nth_code [0..<n]"
  using assms
proof (induction calls arbitrary: s k rs s')
  case Nil
  then have "codes_of s' d = map nth_code [0..<k]" by simp
  then show ?case by (intro exI [of _ k]) simp
next
  case (Cons c calls)
  obtain e req where c: "c = (e, req)" by (cases c)
  obtain r s1 where g: "generate e req s = (r, s1)" by (cases "generate e req s")
  obtain rs1 s2 where t: "run calls s1 = (rs1, s2)" by (cases "run calls s1")
  from Cons.prems(2) c g t have s': "s' = s2" by simp
  from generate_keeps_sequence [OF Cons.prems(1) g]
  obtain k1 where k1: "k \<le> k1" "k1 \<le> Suc k" "codes_of s1 d = map nth_code [0..<k1]"
    by (metis le_refl le_SucI)
  from Cons.IH [OF k1(3) t]
  obtain n where n: "k1 \<le> n" "n \<le> k1 + length calls" "codes_of s2 d = map nth_code [0..<n]"
    by blast
  have "k \<le> n" "n \<le> k + length (c # calls)" using k1(1,2) n(1,2) by simp_all
  then show ?case using n(3) s' by blast
qed

lemma distinct_sequence: "distinct (map nth_code [0..<n])"
  by (simp add: distinct_map inj_on_def) (blast dest: nth_code_inj)

lemma stored_codes_initial_segment:
  assumes "codes_of s d = []" and "run calls s = (rs, s')"
  shows "\<exists>n\<le>length calls. codes_of s' d = map nth_code [0..<n]"
    and "distinct (codes_of s' d)"
proof -
  from assms(1) have "codes_of s d = map nth_code [0..<0]" by simp
  from run_keeps_sequence [OF this assms(2)]
  obtain n where n: "n \<le> length calls" "codes_of s' d = map nth_code [0..<n]" by auto
  then show "\<exists>n\<le>length calls. codes_of s' d = map nth_code [0..<n]" by blast
  show "distinct (codes_of s' d)" unfolding n(2) by (rule distinct_sequence)
qed


text \<open>
  How long that segment is depends on the clock. \<open>get_next_revision_code\<close> takes the last
  of the design's revisions in the order of \<open>get_by_design\<close>, which is the order of
  \<open>generated_at\<close>; the table's own order is that of \<open>id\<close>. Three invocations for the example
  design, each with parameters that pass validation and with an engine that succeeds,
  while the clock reads 5, then 3, then 6:
\<close>

lemma ex_good_valid:
  "validate (evaluator (ex_env t ex_ok)) (req_parameters ex_good)
     (catalog_rules (ex_env t ex_ok) ''base_plate'')
   = Inr \<lparr>is_valid = True, messages = []\<rparr>"
  using ex_validate_ok by (simp add: ex_env_def ex_good_def ex_request_def)

lemma ex_first_at_5:
  "generate (ex_env ''5'' ex_ok) ex_good (ex_world [])
   = (Inr (ex_answer 1 ''A''), ex_after [ex_stored 1 ''A'' ''5''] [''A''])"
  unfolding generate_def ex_good_def
  by (simp add: ex_validate_ok Let_def warnings_def errors_def record_revision_def
      run_engine_def create_def flush_revision_def get_next_revision_code_def
      get_by_design_def next_rev_id_def put_revision_def get_design_def get_piece_type_def
      get_by_id_def update_output_paths_def paths_get_def
      safe_name_of_def word_char_def ex_env_def ex_request_def ex_world_def ex_design_def
      ex_piece_def ex_revision_def ex_ok_def ex_stored_def ex_call_def ex_after_def
      ex_answer_def)

lemma ex_second_at_3:
  "generate (ex_env ''3'' ex_ok) ex_good (ex_after [ex_stored 1 ''A'' ''5''] [''A''])
   = (Inr (ex_answer 2 ''B''),
      ex_after [ex_stored 1 ''A'' ''5'', ex_stored 2 ''B'' ''3''] [''A'', ''B''])"
proof -
  have b: "increment_revision_code ''A'' = ''B''" by code_simp
  show ?thesis
    unfolding generate_def ex_good_def
    by (simp add: ex_validate_ok b Let_def warnings_def errors_def record_revision_def
      run_engine_def create_def flush_revision_def get_next_revision_code_def
      get_by_design_def next_rev_id_def put_revision_def get_design_def get_piece_type_def
      get_by_id_def update_output_paths_def paths_get_def
      safe_name_of_def word_char_def ex_env_def ex_request_def ex_world_def ex_design_def
      ex_piece_def ex_revision_def ex_ok_def ex_stored_def ex_call_def ex_after_def
      ex_answer_def)
qed

lemma ex_order_after_3:
  "get_by_design (ex_after [ex_stored 1 ''A'' ''5'', ex_stored 2 ''B'' ''3''] [''A'', ''B'']) 1
     = [ex_stored 2 ''B'' ''3'', ex_stored 1 ''A'' ''5'']"
  by (simp add: get_by_design_def ex_after_def ex_world_def ex_stored_def ex_revision_def)

lemma ex_next_after_3:
  "get_next_revision_code
     (ex_after [ex_stored 1 ''A'' ''5'', ex_stored 2 ''B'' ''3''] [''A'', ''B'']) 1 = ''B''"
proof -
  have b: "increment_revision_code ''A'' = ''B''" by code_simp
  show ?thesis
    unfolding get_next_revision_code_def ex_order_after_3
    by (simp add: b Let_def ex_stored_def ex_revision_def)
qed

text \<open>
  From then on every invocation for the design that passes validation raises, whatever
  the clock reads: the rows already stored decide the code, and it is taken.
\<close>

lemma ex_stuck_after_3:
  "generate (ex_env t ex_ok) ex_good
     (ex_after [ex_stored 1 ''A'' ''5'', ex_stored 2 ''B'' ''3''] [''A'', ''B''])
   = (Inl (IntegrityError ''uq_revisions_design_rev''),
      ex_after [ex_stored 1 ''A'' ''5'', ex_stored 2 ''B'' ''3''] [''A'', ''B''])"
proof -
  let ?s = "ex_after [ex_stored 1 ''A'' ''5'', ex_stored 2 ''B'' ''3''] [''A'', ''B'']"
  have n: "get_next_revision_code ?s (req_design_id ex_good) = ''B''"
    using ex_next_after_3 by (simp add: ex_good_def ex_request_def)
  have c: "create (ex_env t ex_ok) ?s (req_design_id ex_good) (req_parameters ex_good) d w
           = (Inl (IntegrityError ''uq_revisions_design_rev''), ?s)" for d w
    unfolding create_def n
    by (simp add: Let_def flush_revision_def get_design_def ex_after_def ex_world_def
        ex_stored_def ex_revision_def ex_design_def ex_good_def ex_request_def)
  have r: "record_revision (ex_env t ex_ok) ex_good w ?s
           = (Inl (IntegrityError ''uq_revisions_design_rev''), ?s)" for w
    unfolding record_revision_def c by simp
  have d: "get_design ?s (req_design_id ex_good) = Some ex_design"
    by (simp add: get_design_def ex_after_def ex_world_def ex_good_def ex_request_def
        ex_design_def)
  have p: "get_piece_type ?s (d_piece_type_id ex_design) = Some ex_piece"
    by (simp add: get_piece_type_def ex_after_def ex_world_def ex_design_def ex_piece_def)
  have pc: "pt_code ex_piece = ''base_plate''" by (simp add: ex_piece_def)
  show ?thesis
    unfolding generate_def d p option.case Let_def pc ex_good_valid sum.case r
    by simp
qed

text \<open>
  C1. The code does not keep the invariant of the specification. Three invocations of
  \<open>generate\<close> for one design that had no revision, each with parameters that pass
  validation and an engine that succeeds, at clock readings 5, 3 and 6: the first two
  record the codes A and B; for the third the allocator reads the design's revisions in
  timestamp order, B at 3 before A at 5, increments A and proposes B again; the INSERT
  violates the unique constraint and \<open>generate\<close> raises \<open>IntegrityError\<close>. The design holds
  the codes A and B, where the first three terms of the sequence are A, B and C, and the
  code proposed for the next invocation is still B.
\<close>

theorem codes_stall_after_clock_regression:
  "run [(ex_env ''5'' ex_ok, ex_good), (ex_env ''3'' ex_ok, ex_good),
        (ex_env ''6'' ex_ok, ex_good)] (ex_world [])
     = ([Inr (ex_answer 1 ''A''), Inr (ex_answer 2 ''B''),
         Inl (IntegrityError ''uq_revisions_design_rev'')],
        ex_after [ex_stored 1 ''A'' ''5'', ex_stored 2 ''B'' ''3''] [''A'', ''B''])
   \<and> validate ex_eval (req_parameters ex_good) ex_rules = Inr \<lparr>is_valid = True, messages = []\<rparr>
   \<and> codes_of (snd (run [(ex_env ''5'' ex_ok, ex_good), (ex_env ''3'' ex_ok, ex_good),
                          (ex_env ''6'' ex_ok, ex_good)] (ex_world []))) 1
       = [''A'', ''B'']
   \<and> map revision_code
       (get_by_design (snd (run [(ex_env ''5'' ex_ok, ex_good), (ex_env ''3'' ex_ok, ex_good),
                                 (ex_env ''6'' ex_ok, ex_good)] (ex_world []))) 1)
       = [''B'', ''A'']
   \<and> get_next_revision_code
       (snd (run [(ex_env ''5'' ex_ok, ex_good), (ex_env ''3'' ex_ok, ex_good),
                  (ex_env ''6'' ex_ok, ex_good)] (ex_world []))) 1
       = ''B''
   \<and> map nth_code [0..<3] = [''A'', ''B'', ''C'']"
proof -
  let ?s2 = "ex_after [ex_stored 1 ''A'' ''5'', ex_stored 2 ''B'' ''3''] [''A'', ''B'']"
  have run: "run [(ex_env ''5'' ex_ok, ex_good), (ex_env ''3'' ex_ok, ex_good),
        (ex_env ''6'' ex_ok, ex_good)] (ex_world [])
     = ([Inr (ex_answer 1 ''A''), Inr (ex_answer 2 ''B''),
         Inl (IntegrityError ''uq_revisions_design_rev'')], ?s2)"
    by (simp only: run.simps ex_first_at_5 ex_second_at_3 ex_stuck_after_3 prod.case)
  have v: "validate ex_eval (req_parameters ex_good) ex_rules
             = Inr \<lparr>is_valid = True, messages = []\<rparr>"
    using ex_validate_ok by (simp add: ex_good_def ex_request_def)
  have c: "codes_of ?s2 1 = [''A'', ''B'']"
    by (simp add: codes_of_def ex_after_def ex_world_def ex_stored_def ex_revision_def)
  have o: "map revision_code (get_by_design ?s2 1) = [''B'', ''A'']"
    unfolding ex_order_after_3 by (simp add: ex_stored_def ex_revision_def)
  have abc: "map nth_code [0..<3] = [''A'', ''B'', ''C'']" by code_simp
  show ?thesis
    unfolding run snd_conv
    using v c o ex_next_after_3 abc by simp
qed

section \<open>The parameters property read back\<close>

lemma encode_decode:
  "within_int_limit v \<Longrightarrow>
     \<exists>t. encode_value v = Inr t \<and> decode_value t = Inr (read_back v)"
proof (cases v)
  case (PyFloat x)
  then show ?thesis by (cases x) simp_all
qed simp_all

lemma dumps_then_loads:
  "list_all (\<lambda>(k, v). within_int_limit v) m \<Longrightarrow>
     \<exists>js. dumps m = Inr js
       \<and> (\<forall>d. loads_loop js d = Inr (foldl (\<lambda>d (k, v). dict_set d k (read_back v)) d m))"
proof (induction m)
  case Nil
  then show ?case by simp
next
  case (Cons kv m)
  obtain k v where kv: "kv = (k, v)" by (cases kv)
  from Cons.prems kv have w: "within_int_limit v"
    and rest: "list_all (\<lambda>(k, v). within_int_limit v) m" by simp_all
  from encode_decode [OF w] obtain t where t: "encode_value v = Inr t"
    "decode_value t = Inr (read_back v)" by blast
  from Cons.IH [OF rest] obtain js where js: "dumps m = Inr js"
    "\<And>d. loads_loop js d = Inr (foldl (\<lambda>d (k, v). dict_set d k (read_back v)) d m)"
    by blast
  show ?case by (simp add: kv t js)
qed

lemma foldl_dict_set_fresh:
  "distinct (map fst m) \<Longrightarrow> set (map fst d) \<inter> set (map fst m) = {} \<Longrightarrow>
     foldl (\<lambda>d (k, v). dict_set d k (f v)) d m = d @ map (\<lambda>(k, v). (k, f v)) m"
proof (induction m arbitrary: d)
  case Nil
  then show ?case by simp
next
  case (Cons kv m)
  obtain k v where kv: "kv = (k, v)" by (cases kv)
  have fresh: "k \<notin> set (map fst d)" using Cons.prems(2) kv by auto
  then have step: "dict_set d k (f v) = d @ [(k, f v)]" by (simp add: dict_set_def)
  have "set (map fst (d @ [(k, f v)])) \<inter> set (map fst m) = {}"
    using Cons.prems kv by auto
  moreover have "distinct (map fst m)" using Cons.prems(1) by simp
  ultimately have "foldl (\<lambda>d (k, v). dict_set d k (f v)) (d @ [(k, f v)]) m
      = (d @ [(k, f v)]) @ map (\<lambda>(k, v). (k, f v)) m"
    by (rule Cons.IH [rotated])
  then show ?case by (simp add: kv step)
qed

lemma read_back_eq:
  "(same_object (read_back v) v \<or> py_eq (read_back v) v) = (\<not> other_nan v)"
proof (cases v)
  case (PyFloat x)
  then show ?thesis by (cases x) (auto simp: py_eq_def)
qed (simp_all add: py_eq_def)

lemma dict_eq_read_back:
  assumes "distinct (map fst m)"
  shows "dict_eq (map (\<lambda>(k, v). (k, read_back v)) m) m
           = list_all (\<lambda>(k, v). \<not> other_nan v) m"
proof -
  have "(case map_of m k of None \<Rightarrow> False
          | Some w \<Rightarrow> same_object (read_back v) w \<or> py_eq (read_back v) w)
        = (\<not> other_nan v)" if "(k, v) \<in> set m" for k v
    using that assms read_back_eq [of v] by simp
  then show ?thesis
    by (auto simp: dict_eq_def list_all_iff)
qed

lemma within_limit_below:
  assumes "abs i < 10 ^ n" and "n \<le> int_max_str_digits"
  shows "abs (i::int) < 10 ^ int_max_str_digits"
proof -
  have "(10::int) ^ n \<le> 10 ^ int_max_str_digits"
    using assms(2) by (intro power_increasing) simp_all
  with assms(1) show ?thesis by (rule less_le_trans)
qed

text \<open>
  An \<open>int\<close> of more digits than the interpreter converts makes the setter raise: nothing
  is assigned, and there is nothing to read back.
\<close>

lemma parameters_setter_raises_over_limit:
  "list_ex (\<lambda>(k, v). \<not> within_int_limit v) m \<Longrightarrow> \<exists>err. parameters_setter m = Inl err"
proof (induction m)
  case Nil
  then show ?case by simp
next
  case (Cons kv m)
  obtain k v where kv: "kv = (k, v)" by (cases kv)
  show ?case
  proof (cases "within_int_limit v")
    case False
    then obtain err where "encode_value v = Inl err" by (cases v) simp_all
    then show ?thesis by (simp add: parameters_setter_def kv)
  next
    case True
    with Cons kv obtain err where "dumps m = Inl err"
      by (auto simp: parameters_setter_def)
    then show ?thesis by (simp add: parameters_setter_def kv split: sum.splits)
  qed
qed

lemma ex_over_limit:
  "parameters_setter [(''x'', PyInt (10 ^ int_max_str_digits))]
     = Inl (ValueError ''Exceeds the limit (4300 digits) for integer string conversion'')"
  by (simp add: parameters_setter_def)

text \<open>
  A mapping that holds the decoder's own \<open>NaN\<close> object, as one that was read by
  \<open>json.loads\<close> before, is read back with that object and compares equal.
\<close>

lemma ex_decoder_nan:
  "parameters_setter [(''x'', PyFloat (NaN decoder_NaN))] = Inr [(''x'', JNaN)]"
  "parameters_getter [(''x'', JNaN)] = Inr [(''x'', PyFloat (NaN decoder_NaN))]"
  "dict_eq [(''x'', PyFloat (NaN decoder_NaN))] [(''x'', PyFloat (NaN decoder_NaN))]"
  by (simp_all add: parameters_setter_def parameters_getter_def loads_def dict_set_def
      dict_eq_def)

text \<open>
  The round trip as the specification states it fails for the mapping with the one item
  \<open>"x": float("nan")\<close>, here the float object 1: the setter stores the text with the
  constant \<open>NaN\<close>, the getter returns a mapping with the decoder's \<open>NaN\<close> object, and that
  mapping is not equal to the original, a \<open>NaN\<close> being equal to no other object.
\<close>

theorem nan_parameters_read_back_unequal:
  "distinct (map fst [(''x'', PyFloat (NaN 1))])
   \<and> parameters_setter [(''x'', PyFloat (NaN 1))] = Inr [(''x'', JNaN)]
   \<and> parameters_getter [(''x'', JNaN)] = Inr [(''x'', PyFloat (NaN decoder_NaN))]
   \<and> \<not> dict_eq [(''x'', PyFloat (NaN decoder_NaN))] [(''x'', PyFloat (NaN 1))]"
  by (simp add: parameters_setter_def parameters_getter_def loads_def dict_set_def dict_eq_def
      py_eq_def decoder_NaN_def)

text \<open>
  C9, amended. For every mapping with distinct string keys and values that are \<open>int\<close>,
  \<open>float\<close>, \<open>bool\<close> or \<open>str\<close>, every \<open>int\<close> of at most 4300 decimal digits: the setter of
  \<open>parameters\<close> stores a text, and the getter returns from it the same keys in the same
  order with the same values, a \<open>NaN\<close> read back being the decoder's \<open>NaN\<close> object. The
  mapping read back is equal to the original exactly when the original holds no \<open>NaN\<close>
  other than that object; so it is for every mapping without \<open>NaN\<close>.
\<close>

theorem parameters_round_trip_up_to_nan:
  "distinct (map fst m) \<and> list_all (\<lambda>(k, v). within_int_limit v) m
   \<longrightarrow> (\<exists>js. parameters_setter m = Inr js
          \<and> parameters_getter js = Inr (map (\<lambda>(k, v). (k, read_back v)) m))
       \<and> dict_eq (map (\<lambda>(k, v). (k, read_back v)) m) m
           = list_all (\<lambda>(k, v). \<not> other_nan v) m"
proof
  assume a: "distinct (map fst m) \<and> list_all (\<lambda>(k, v). within_int_limit v) m"
  then have d: "distinct (map fst m)" and w: "list_all (\<lambda>(k, v). within_int_limit v) m"
    by simp_all
  from dumps_then_loads [OF w] obtain js where js: "dumps m = Inr js"
    "\<And>d. loads_loop js d = Inr (foldl (\<lambda>d (k, v). dict_set d k (read_back v)) d m)"
    by blast
  have "loads js = Inr (map (\<lambda>(k, v). (k, read_back v)) m)"
    unfolding loads_def js(2) using foldl_dict_set_fresh [OF d, of "[]" read_back] by simp
  with js(1) have "\<exists>js. parameters_setter m = Inr js
          \<and> parameters_getter js = Inr (map (\<lambda>(k, v). (k, read_back v)) m)"
    by (simp add: parameters_setter_def parameters_getter_def)
  then show "(\<exists>js. parameters_setter m = Inr js
          \<and> parameters_getter js = Inr (map (\<lambda>(k, v). (k, read_back v)) m))
       \<and> dict_eq (map (\<lambda>(k, v). (k, read_back v)) m) m
           = list_all (\<lambda>(k, v). \<not> other_nan v) m"
    using dict_eq_read_back [OF d] by simp
qed

theorem parameters_round_trip_up_to_nan_witness:
  "distinct (map fst ex_mapping)
   \<and> list_all (\<lambda>(k, v). within_int_limit v) ex_mapping
   \<and> parameters_setter ex_mapping
       = Inr [(''espesor'', JInteger 12), (''largo'', JReal (601 / 2)), (''soldado'', JTrue),
              (''material'', JString ''S275''), (''radio_max'', JInfinity)]
   \<and> parameters_getter
         [(''espesor'', JInteger 12), (''largo'', JReal (601 / 2)), (''soldado'', JTrue),
          (''material'', JString ''S275''), (''radio_max'', JInfinity)]
       = Inr ex_mapping
   \<and> dict_eq ex_mapping ex_mapping"
proof -
  have "abs (12::int) < 10 ^ int_max_str_digits"
    by (rule within_limit_below [of 12 2]) (simp_all add: int_max_str_digits_def)
  then have l: "(12::int) < 10 ^ int_max_str_digits" by simp
  have d: "distinct (map fst ex_mapping)" by (simp add: ex_mapping_def)
  have w: "list_all (\<lambda>(k, v). within_int_limit v) ex_mapping"
    by (simp add: ex_mapping_def l)
  have r: "map (\<lambda>(k, v). (k, read_back v)) ex_mapping = ex_mapping"
    by (simp add: ex_mapping_def)
  have n: "list_all (\<lambda>(k, v). \<not> other_nan v) ex_mapping" by (simp add: ex_mapping_def)
  have s: "parameters_setter ex_mapping
       = Inr [(''espesor'', JInteger 12), (''largo'', JReal (601 / 2)), (''soldado'', JTrue),
              (''material'', JString ''S275''), (''radio_max'', JInfinity)]"
    by (simp add: parameters_setter_def ex_mapping_def l)
  show ?thesis
    using parameters_round_trip_up_to_nan [of ex_mapping] d w n s by (simp add: r)
qed

end
